theory Spec2Isabelle
  imports Main
begin

section \<open>Paths: the functions of \<^verbatim>\<open>os.path\<close> (POSIX) and \<^verbatim>\<open>pathlib\<close> that the detector calls\<close>

text \<open>
  Paths are strings, as in the source. The separator is \<^verbatim>\<open>/\<close>. Each function below follows
  the corresponding function of \<^verbatim>\<open>posixpath\<close>.
\<close>

abbreviation sep :: char where
  "sep \<equiv> CHR ''/''"

text \<open>\<^verbatim>\<open>s.split('/')\<close>: never the empty list; \<^verbatim>\<open>''.split('/') == ['']\<close>.\<close>

fun split_sep :: "string \<Rightarrow> string list" where
  "split_sep [] = [[]]"
| "split_sep (c # cs) =
     (if c = sep then [] # split_sep cs
      else case split_sep cs of [] \<Rightarrow> [[c]] | x # xs \<Rightarrow> (c # x) # xs)"

text \<open>\<^verbatim>\<open>'/'.join(comps)\<close>.\<close>

fun join_sep :: "string list \<Rightarrow> string" where
  "join_sep [] = []"
| "join_sep [x] = x"
| "join_sep (x # y # ys) = x @ sep # join_sep (y # ys)"

text \<open>\<^verbatim>\<open>os.path.join(a, b)\<close>: an absolute second argument replaces the first.\<close>

definition path_join :: "string \<Rightarrow> string \<Rightarrow> string" where
  "path_join a b =
     (if b \<noteq> [] \<and> hd b = sep then b
      else if a = [] \<or> last a = sep then a @ b
      else a @ sep # b)"

text \<open>\<^verbatim>\<open>os.path.basename(p)\<close>: what follows the last separator.\<close>

definition basename :: "string \<Rightarrow> string" where
  "basename p = rev (takeWhile (\<lambda>c. c \<noteq> sep) (rev p))"

text \<open>
  \<^verbatim>\<open>os.path.dirname(p)\<close>: the part up to and including the last separator, with the trailing
  separators stripped unless it consists of separators only.
\<close>

definition dirname :: "string \<Rightarrow> string" where
  "dirname p =
     (let head = rev (dropWhile (\<lambda>c. c \<noteq> sep) (rev p))
      in if head \<noteq> [] \<and> \<not> (\<forall>c \<in> set head. c = sep)
         then rev (dropWhile (\<lambda>c. c = sep) (rev head))
         else head)"

text \<open>
  The loop of \<^verbatim>\<open>os.path.normpath\<close> over the components: empty and \<^verbatim>\<open>.\<close> components are
  dropped, \<^verbatim>\<open>..\<close> removes the component before it, is kept in a relative path that has
  nothing left to remove, and is dropped at the root of an absolute path.
\<close>

definition norm_step :: "bool \<Rightarrow> string list \<Rightarrow> string \<Rightarrow> string list" where
  "norm_step initial_slashes new_comps cmp =
     (if cmp = [] \<or> cmp = ''.'' then new_comps
      else if cmp \<noteq> ''..'' \<or> (\<not> initial_slashes \<and> new_comps = [])
              \<or> (new_comps \<noteq> [] \<and> last new_comps = ''..'')
           then new_comps @ [cmp]
      else if new_comps \<noteq> [] then butlast new_comps
      else new_comps)"

definition norm_comps :: "bool \<Rightarrow> string list \<Rightarrow> string list" where
  "norm_comps initial_slashes comps = foldl (norm_step initial_slashes) [] comps"

text \<open>The number of leading slashes \<^verbatim>\<open>normpath\<close> keeps: two when there are exactly two.\<close>

definition initial_slashes :: "string \<Rightarrow> nat" where
  "initial_slashes path =
     (if path = [] \<or> hd path \<noteq> sep then 0
      else if take 2 path = ''//'' \<and> take 3 path \<noteq> ''///'' then 2
      else 1)"

definition normpath :: "string \<Rightarrow> string" where
  "normpath path =
     (if path = [] then ''.''
      else
        let n = initial_slashes path;
            p = replicate n sep @ join_sep (norm_comps (n \<noteq> 0) (split_sep path))
        in if p = [] then ''.'' else p)"

text \<open>
  \<^verbatim>\<open>os.path.abspath(p)\<close>, with the process's current directory as a parameter: a relative
  path is joined to it.
\<close>

definition abspath :: "string \<Rightarrow> string \<Rightarrow> string" where
  "abspath wd p = normpath (path_join wd p)"

text \<open>The components \<^verbatim>\<open>os.path.relpath\<close> compares: those of the absolute path, empty ones left out.\<close>

definition path_comps :: "string \<Rightarrow> string list" where
  "path_comps p = filter (\<lambda>x. x \<noteq> []) (split_sep p)"

fun commonprefix :: "string list \<Rightarrow> string list \<Rightarrow> string list" where
  "commonprefix (x # xs) (y # ys) = (if x = y then x # commonprefix xs ys else [])"
| "commonprefix _ _ = []"

text \<open>
  \<^verbatim>\<open>os.path.relpath(path, start)\<close>. The library raises \<^verbatim>\<open>ValueError\<close> on an empty \<^verbatim>\<open>path\<close>;
  the callers below test for the empty path before they call it.
\<close>

definition relpath :: "string \<Rightarrow> string \<Rightarrow> string \<Rightarrow> string" where
  "relpath wd path start =
     (let start_list = path_comps (abspath wd start);
          path_list = path_comps (abspath wd path);
          i = length (commonprefix start_list path_list);
          rel_list = replicate (length start_list - i) ''..'' @ drop i path_list
      in if rel_list = [] then ''.'' else foldl path_join (hd rel_list) (tl rel_list))"

text \<open>
  \<^verbatim>\<open>Path(p).name\<close> and \<^verbatim>\<open>Path(p).suffix\<close> of \<^verbatim>\<open>pathlib\<close>: the name is the last component after
  empty and \<^verbatim>\<open>.\<close> components are dropped; the suffix starts at the last dot of the name,
  when that dot is neither its first nor its last character.
\<close>

definition path_name :: "string \<Rightarrow> string" where
  "path_name p =
     (let parts = filter (\<lambda>x. x \<noteq> [] \<and> x \<noteq> ''.'') (split_sep p)
      in if parts = [] then [] else last parts)"

definition path_suffix :: "string \<Rightarrow> string" where
  "path_suffix p =
     (let name = path_name p;
          tail = rev (takeWhile (\<lambda>c. c \<noteq> CHR ''.'') (rev name))
      in if CHR ''.'' \<in> set name \<and> tail \<noteq> [] \<and> length tail + 1 < length name
         then CHR ''.'' # tail else [])"

text \<open>\<^verbatim>\<open>str.lower()\<close> on the ASCII letters.\<close>

definition lower_char :: "char \<Rightarrow> char" where
  "lower_char c =
     (if (65::nat) \<le> of_char c \<and> of_char c \<le> (90::nat)
      then char_of (of_char c + (32::nat)) else c)"

definition lower :: "string \<Rightarrow> string" where
  "lower s = map lower_char s"


section \<open>\<^verbatim>\<open>fnmatch\<close> and the substring test\<close>

text \<open>
  \<^verbatim>\<open>fnmatch.fnmatch(name, pat)\<close> on POSIX (no case folding) translates the pattern into a
  regular expression that must match the whole name: \<^verbatim>\<open>*\<close> is any string (separators
  included), \<^verbatim>\<open>?\<close> any one character, \<^verbatim>\<open>[...]\<close> a character class with ranges and a leading
  \<^verbatim>\<open>!\<close> for negation, and a \<^verbatim>\<open>[\<close> without a closing bracket is literal.
\<close>

datatype glob_tok = GStar | GAny | GLit char | GSet bool "(char \<times> char) list"

text \<open>The items of a class body: \<^verbatim>\<open>a-b\<close> is a range, any other character stands for itself.\<close>

fun class_items :: "string \<Rightarrow> (char \<times> char) list" where
  "class_items (a # b # c # rest) =
     (if b = CHR ''-'' then (a, c) # class_items rest else (a, a) # class_items (b # c # rest))"
| "class_items (a # rest) = (a, a) # class_items rest"
| "class_items [] = []"

text \<open>
  The search for the closing bracket, in the text after \<^verbatim>\<open>[\<close>: a leading \<^verbatim>\<open>!\<close> and a \<^verbatim>\<open>]\<close> right
  after it do not close the class. The result is the length of the class body.
\<close>

definition bracket_end :: "string \<Rightarrow> nat option" where
  "bracket_end rest =
     (let j0 = (if rest \<noteq> [] \<and> hd rest = CHR ''!'' then 1 else 0);
          j1 = (if j0 < length rest \<and> rest ! j0 = CHR '']'' then j0 + 1 else j0);
          tl1 = drop j1 rest;
          k = length (takeWhile (\<lambda>c. c \<noteq> CHR '']'') tl1)
      in if k < length tl1 then Some (j1 + k) else None)"

function glob_translate :: "string \<Rightarrow> glob_tok list" where
  "glob_translate [] = []"
| "glob_translate (c # pat) =
     (if c = CHR ''*'' then GStar # glob_translate pat
      else if c = CHR ''?'' then GAny # glob_translate pat
      else if c = CHR ''['' then
        (case bracket_end pat of
           None \<Rightarrow> GLit c # glob_translate pat
         | Some j \<Rightarrow>
             (let stuff = take j pat;
                  neg = (stuff \<noteq> [] \<and> hd stuff = CHR ''!'')
              in GSet neg (class_items (if neg then tl stuff else stuff))
                 # glob_translate (drop (Suc j) pat)))
      else GLit c # glob_translate pat)"
  by pat_completeness auto
termination
  by (relation "measure length") auto

fun glob_match :: "glob_tok list \<Rightarrow> string \<Rightarrow> bool" where
  "glob_match [] s = (s = [])"
| "glob_match (GStar # ts) s = list_ex (\<lambda>k. glob_match ts (drop k s)) [0 ..< Suc (length s)]"
| "glob_match (GAny # ts) s = (s \<noteq> [] \<and> glob_match ts (tl s))"
| "glob_match (GLit c # ts) s = (s \<noteq> [] \<and> hd s = c \<and> glob_match ts (tl s))"
| "glob_match (GSet neg items # ts) s =
     (s \<noteq> [] \<and> (list_ex (\<lambda>(lo, hi). (of_char lo :: nat) \<le> of_char (hd s) \<and> (of_char (hd s) :: nat) \<le> of_char hi) items \<noteq> neg)
      \<and> glob_match ts (tl s))"

definition fnmatch :: "string \<Rightarrow> string \<Rightarrow> bool" where
  "fnmatch name pat = glob_match (glob_translate pat) name"

text \<open>\<^verbatim>\<open>pattern in file_path\<close> on strings.\<close>

fun is_substring :: "string \<Rightarrow> string \<Rightarrow> bool" where
  "is_substring p [] = (p = [])"
| "is_substring p (c # cs) = (take (length p) (c # cs) = p \<or> is_substring p cs)"

section \<open>Regular expressions: \<^verbatim>\<open>re.findall\<close> on the reference patterns\<close>

text \<open>
  The reference patterns of the configuration are regular expressions with one capturing
  group. They are kept in parsed form. The fragment below covers the constructs of the
  default patterns: a literal character, a character class or its complement, \<^verbatim>\<open>\s\<close>,
  the dot (any character but a newline), greedy \<^verbatim>\<open>*\<close> and \<^verbatim>\<open>+\<close> on one of these, an optional
  non-capturing group and a capturing group.
\<close>

datatype atom = Lit char | OneOf string | NoneOf string | Space | AnyChar

datatype rx = One atom | Star atom | Plus atom | Opt "rx list" | Group "rx list"

type_synonym regex = "rx list"

definition is_space :: "char \<Rightarrow> bool" where
  "is_space c = (let n = (of_char c :: nat) in (9 \<le> n \<and> n \<le> 13) \<or> (28 \<le> n \<and> n \<le> 32))"

fun atom_ok :: "atom \<Rightarrow> char \<Rightarrow> bool" where
  "atom_ok (Lit a) c = (c = a)"
| "atom_ok (OneOf cs) c = (c \<in> set cs)"
| "atom_ok (NoneOf cs) c = (c \<notin> set cs)"
| "atom_ok Space c = is_space c"
| "atom_ok AnyChar c = (c \<noteq> CHR 0x0A)"

text \<open>
  What is left of the input after a greedy repetition of one atom, each alternative the
  backtracking matcher tries, in its order: the longest repetition first.
\<close>

fun star_rests :: "atom \<Rightarrow> string \<Rightarrow> string list" where
  "star_rests a [] = [[]]"
| "star_rests a (c # cs) = (if atom_ok a c then star_rests a cs else []) @ [c # cs]"

text \<open>
  All the ways the pattern matches at the start of the input, in the order the
  backtracking matcher finds them: what is left of the input, and the text of the group.
\<close>

fun run :: "rx list \<Rightarrow> string \<Rightarrow> (string \<times> string option) list" where
  "run [] s = [(s, None)]"
| "run (One a # rs) s = (if s \<noteq> [] \<and> atom_ok a (hd s) then run rs (tl s) else [])"
| "run (Star a # rs) s = concat (map (run rs) (star_rests a s))"
| "run (Plus a # rs) s =
     (if s \<noteq> [] \<and> atom_ok a (hd s) then concat (map (run rs) (star_rests a (tl s))) else [])"
| "run (Opt inner # rs) s = concat (map (\<lambda>(s', c). run rs s') (run inner s)) @ run rs s"
| "run (Group inner # rs) s =
     concat (map (\<lambda>(s', c). map (\<lambda>(s'', c'). (s'', Some (take (length s - length s') s)))
                                (run rs s'))
                 (run inner s))"

text \<open>
  \<^verbatim>\<open>re.findall\<close>: the matches from left to right, without overlap; each contributes the text
  of its group (the whole match when the pattern has no group). \<open>skip\<close> counts the
  characters still covered by the previous match.
\<close>

fun findall_from :: "regex \<Rightarrow> nat \<Rightarrow> string \<Rightarrow> string list" where
  "findall_from r skip [] =
     (if skip = 0 then (case run r [] of [] \<Rightarrow> [] | (rest, cap) # _ \<Rightarrow> [case cap of None \<Rightarrow> [] | Some g \<Rightarrow> g])
      else [])"
| "findall_from r skip (c # cs) =
     (if 0 < skip then findall_from r (skip - 1) cs
      else case run r (c # cs) of
             [] \<Rightarrow> findall_from r 0 cs
           | (rest, cap) # _ \<Rightarrow>
               (let n = length (c # cs) - length rest
                in (case cap of None \<Rightarrow> take n (c # cs) | Some g \<Rightarrow> g)
                   # findall_from r (n - 1) cs))"

definition findall :: "regex \<Rightarrow> string \<Rightarrow> string list" where
  "findall r s = findall_from r 0 s"

section \<open>The file system\<close>

text \<open>
  A directory tree. A file has a name, its size (\<open>None\<close> when \<^verbatim>\<open>stat\<close> fails on it) and its
  decoded text (\<open>None\<close> when it cannot be opened); a directory has a name and its entries
  in the order \<^verbatim>\<open>os.scandir\<close> lists them. Symbolic links are not modelled. The environment
  of the process is the current directory and the entries of \<^verbatim>\<open>/\<close>.
\<close>

datatype node = File string "nat option" "string option" | Dir string "node list"

fun node_name :: "node \<Rightarrow> string" where
  "node_name (File name _ _) = name"
| "node_name (Dir name _) = name"

fun is_dir :: "node \<Rightarrow> bool" where
  "is_dir (Dir _ _) = True"
| "is_dir (File _ _ _) = False"

record os_env =
  cwd :: string
  root_entries :: "node list"

text \<open>
  Path resolution as the kernel does it, from \<^verbatim>\<open>/\<close>, on the components of a path; the stack
  holds the directories entered, the current one first. A file must be the last
  component.
\<close>

fun walk_path :: "node list list \<Rightarrow> string list \<Rightarrow> node option" where
  "walk_path stk [] = Some (Dir [] (hd stk))"
| "walk_path stk (c # cs) =
     (if c = [] \<or> c = ''.'' then walk_path stk cs
      else if c = ''..'' then walk_path (if 1 < length stk then tl stk else stk) cs
      else case find (\<lambda>n. node_name n = c) (hd stk) of
             None \<Rightarrow> None
           | Some (File name sz content) \<Rightarrow> if cs = [] then Some (File name sz content) else None
           | Some (Dir name es) \<Rightarrow> walk_path (es # stk) cs)"

definition lookup_path :: "os_env \<Rightarrow> string \<Rightarrow> node option" where
  "lookup_path env p =
     (if p = [] then None
      else walk_path [root_entries env] (split_sep (path_join (cwd env) p)))"

text \<open>\<^verbatim>\<open>os.path.exists(p)\<close>: \<^verbatim>\<open>stat\<close> succeeds.\<close>

definition path_exists :: "os_env \<Rightarrow> string \<Rightarrow> bool" where
  "path_exists env p =
     (case lookup_path env p of
        None \<Rightarrow> False
      | Some (File _ sz _) \<Rightarrow> sz \<noteq> None
      | Some (Dir _ _) \<Rightarrow> True)"

text \<open>The entries \<^verbatim>\<open>os.walk\<close> reads at its top directory: none when it cannot be listed.\<close>

definition scandir :: "os_env \<Rightarrow> string \<Rightarrow> node list" where
  "scandir env p =
     (case lookup_path env p of
        Some (Dir _ es) \<Rightarrow> es
      | _ \<Rightarrow> [])"

section \<open>The detector: configuration and state\<close>

text \<open>
  The configuration dictionary, with the keys the classifier and the walker read. The
  sizes are Python integers.
\<close>

record config =
  ignore_patterns :: "string list"
  scan_extensions :: "string list"
  import_patterns :: "regex list"
  file_path_patterns :: "regex list"
  special_files :: "string list"
  min_file_size :: int
  max_file_size :: int

text \<open>
  The fields of \<^verbatim>\<open>DeadFileDetector\<close>. \<^verbatim>\<open>all_files\<close> is a Python set: it is kept as the list
  of its elements without repetition, in the order the set is iterated (an order Python
  leaves open; the statements below are about membership only). \<^verbatim>\<open>file_references\<close> is
  the dictionary from a referenced path to the set of its referrers. \<^verbatim>\<open>root_dir\<close> does not
  exist before the first scan.
\<close>

record detector =
  all_files :: "string list"
  file_references :: "string \<rightharpoonup> string set"
  root_dir :: "string option"

definition init_detector :: detector where
  "init_detector = \<lparr>all_files = [], file_references = Map.empty, root_dir = None\<rparr>"

datatype error =
  ValueError string
  | AttributeError string

text \<open>The default configuration of \<^verbatim>\<open>_load_config\<close>, its reference patterns parsed.\<close>

definition quotes :: string where
  "quotes = [CHR 0x27, CHR 0x22]"

definition alnum :: string where
  "alnum = ''abcdefghijklmnopqrstuvwxyzABCDEFGHIJKLMNOPQRSTUVWXYZ0123456789''"

definition lits :: "string \<Rightarrow> rx list" where
  "lits s = map (\<lambda>c. One (Lit c)) s"

definition quoted :: "rx list" where
  "quoted = [One (OneOf quotes), Group [Plus (NoneOf quotes)], One (OneOf quotes)]"

definition default_import_patterns :: "regex list" where
  "default_import_patterns =
     [lits ''import'' @ [Plus Space,
                          Opt ([Star AnyChar, Plus Space] @ lits ''from'' @ [Plus Space])] @ quoted,
      lits ''from'' @ [Plus Space] @ quoted @ [Plus Space] @ lits ''import'',
      lits ''require'' @ [Star Space, One (Lit (CHR ''('')), Star Space] @ quoted
        @ [Star Space, One (Lit (CHR '')''))],
      lits ''#include'' @ [Star Space, One (OneOf [CHR ''<'', CHR 0x22]),
                            Group [Plus (NoneOf [CHR ''>'', CHR 0x22])],
                            One (OneOf [CHR ''>'', CHR 0x22])],
      lits ''@import'' @ [Plus Space] @ quoted]"

definition default_file_path_patterns :: "regex list" where
  "default_file_path_patterns =
     [[One (OneOf quotes),
       Group [Star (NoneOf quotes), One (Lit (CHR ''.'')), Plus (OneOf alnum)],
       One (OneOf quotes)],
      lits ''src='' @ quoted,
      lits ''href='' @ quoted]"

definition default_config :: config where
  "default_config =
     \<lparr>ignore_patterns =
        [''.git/*'', ''*.log'', ''*.tmp'', ''node_modules/*'', ''__pycache__/*'', ''*.pyc'',
         ''.pytest_cache/*'', ''venv/*'', ''env/*'', ''.env'', ''dist/*'', ''build/*'',
         ''target/*'', ''.DS_Store'', ''*.swp'', ''*.bak'', ''coverage/*'', ''.coverage'',
         ''.tox/*''],
      scan_extensions =
        [''.py'', ''.js'', ''.ts'', ''.jsx'', ''.tsx'', ''.java'', ''.c'', ''.cpp'', ''.h'',
         ''.hpp'', ''.cs'', ''.php'', ''.rb'', ''.go'', ''.rs'', ''.swift'', ''.kt'',
         ''.scala'', ''.sh'', ''.bash'', ''.ps1'', ''.sql'', ''.html'', ''.css'', ''.scss'',
         ''.sass'', ''.less'', ''.vue'', ''.yaml'', ''.yml'', ''.json'', ''.xml'', ''.md'',
         ''.txt'', ''.cfg'', ''.conf'', ''.ini''],
      import_patterns = default_import_patterns,
      file_path_patterns = default_file_path_patterns,
      special_files =
        [''README.md'', ''LICENSE'', ''CHANGELOG.md'', ''CONTRIBUTING.md'', ''requirements.txt'',
         ''package.json'', ''Dockerfile'', ''Makefile'', ''.gitignore'', ''.dockerignore'',
         ''setup.py'', ''pyproject.toml'', ''Cargo.toml'', ''pom.xml'', ''build.gradle'',
         ''composer.json''],
      min_file_size = 1,
      max_file_size = 10485760\<rparr>"

section \<open>The walker, the extractor and the resolver\<close>

text \<open>\<^verbatim>\<open>_should_ignore_file\<close>: some pattern matches as a glob or occurs in the path.\<close>

definition should_ignore_file :: "config \<Rightarrow> string \<Rightarrow> bool" where
  "should_ignore_file cfg file_path =
     (\<exists>pattern \<in> set (ignore_patterns cfg).
        fnmatch file_path pattern \<or> is_substring pattern file_path)"

definition is_scannable_file :: "config \<Rightarrow> string \<Rightarrow> bool" where
  "is_scannable_file cfg file_path =
     (let ext = lower (path_suffix file_path) in ext \<in> set (scan_extensions cfg))"

text \<open>
  \<^verbatim>\<open>_extract_references\<close>: the import patterns, then the file path patterns; the result is a
  set, kept as the list of its elements without repetition.
\<close>

definition extract_references :: "config \<Rightarrow> string \<Rightarrow> string list" where
  "extract_references cfg content =
     remdups (concat (map (\<lambda>pattern. findall pattern content) (import_patterns cfg))
              @ concat (map (\<lambda>pattern. findall pattern content) (file_path_patterns cfg)))"

definition probe_extensions :: "string list" where
  "probe_extensions = [''.py'', ''.js'', ''.ts'', ''.java'', ''.cpp'']"

text \<open>One round of the loop over the extensions in \<^verbatim>\<open>_resolve_reference\<close>.\<close>

definition probe :: "os_env \<Rightarrow> string \<Rightarrow> string \<Rightarrow> string \<Rightarrow> string \<Rightarrow> string list" where
  "probe env root base_dir reference ext =
     (let test_path = reference @ ext;
          rel_test = path_join base_dir test_path;
          root_test = path_join root test_path
      in if path_exists env rel_test then [normpath rel_test]
         else if path_exists env root_test then [normpath root_test]
         else [])"

definition resolve_reference :: "os_env \<Rightarrow> string \<Rightarrow> string \<Rightarrow> string \<Rightarrow> string list" where
  "resolve_reference env root reference base_path =
     (let base_dir = dirname base_path;
          rel_path = path_join base_dir reference;
          root_path = path_join root reference
      in (if path_exists env rel_path then [normpath rel_path] else [])
         @ (if path_exists env root_path then [normpath root_path] else [])
         @ (if path_suffix reference = []
            then concat (map (probe env root base_dir reference) probe_extensions)
            else []))"

section \<open>The scan\<close>

text \<open>\<^verbatim>\<open>self.all_files.add(file_path)\<close>.\<close>

definition set_add :: "string \<Rightarrow> string list \<Rightarrow> string list" where
  "set_add x xs = (if x \<in> set xs then xs else xs @ [x])"

text \<open>
  The innermost statement of the scan: a resolved path that is in \<^verbatim>\<open>all_files\<close> at this
  moment gets the scanned file as a referrer (\<^verbatim>\<open>file_references\<close> is a \<^verbatim>\<open>defaultdict(set)\<close>).
\<close>

definition add_reference :: "string \<Rightarrow> string \<Rightarrow> detector \<Rightarrow> detector" where
  "add_reference file_path resolved st =
     (if resolved \<in> set (all_files st)
      then st\<lparr>file_references := (file_references st)
                (resolved \<mapsto> insert file_path
                   (case file_references st resolved of None \<Rightarrow> {} | Some refs \<Rightarrow> refs))\<rparr>
      else st)"

definition scan_references :: "config \<Rightarrow> os_env \<Rightarrow> string \<Rightarrow> string \<Rightarrow> string \<Rightarrow> detector \<Rightarrow> detector" where
  "scan_references cfg env root file_path content st =
     fold (\<lambda>ref. fold (add_reference file_path) (resolve_reference env root ref file_path))
          (extract_references cfg content) st"

text \<open>
  The body of the loop over the files of one directory \<open>walk_dir\<close> of the walk. A file that is
  ignored, that cannot be measured or whose size is out of bounds is skipped; a file that
  cannot be opened is tracked and not scanned.
\<close>

fun scan_file :: "config \<Rightarrow> os_env \<Rightarrow> string \<Rightarrow> string \<Rightarrow> node \<Rightarrow> detector \<Rightarrow> detector" where
  "scan_file cfg env root walk_dir (File name sz content) st =
     (let file_path = path_join walk_dir name;
          rel_path = relpath (cwd env) file_path root
      in if should_ignore_file cfg rel_path then st
         else case sz of
           None \<Rightarrow> st
         | Some n \<Rightarrow>
             if int n < min_file_size cfg \<or> int n > max_file_size cfg then st
             else
               let st1 = st\<lparr>all_files := set_add file_path (all_files st)\<rparr>
               in if is_scannable_file cfg rel_path then
                    (case content of
                       None \<Rightarrow> st1
                     | Some text \<Rightarrow> scan_references cfg env root file_path text st1)
                  else st1)"
| "scan_file cfg env root walk_dir (Dir name es) st = st"

text \<open>
  The loop over \<^verbatim>\<open>os.walk\<close>, top down: the directories of \<open>walk_dir\<close> that are not ignored are kept
  for the descent, the files of \<open>walk_dir\<close> are processed, then the walk enters each directory
  kept, in order.
\<close>

function scan_dir :: "config \<Rightarrow> os_env \<Rightarrow> string \<Rightarrow> string \<Rightarrow> node list \<Rightarrow> detector \<Rightarrow> detector" where
  "scan_dir cfg env root walk_dir entries st =
     (let dirs = filter (\<lambda>d. is_dir d \<and> \<not> should_ignore_file cfg (path_join walk_dir (node_name d))) entries;
          files = filter (\<lambda>f. \<not> is_dir f) entries;
          st1 = fold (scan_file cfg env root walk_dir) files st
      in fold (\<lambda>d. case d of
                      Dir name es \<Rightarrow> scan_dir cfg env root (path_join walk_dir name) es
                    | File _ _ _ \<Rightarrow> id)
              dirs st1)"
  by pat_completeness auto
termination
proof (relation "measure (\<lambda>(cfg, env, root, walk_dir, entries, st). size_list size entries)")
  show "wf (measure (\<lambda>(cfg, env, root, walk_dir, entries, st). size_list size entries))"
    by simp
next
  fix cfg :: config and env :: os_env and root walk_dir :: string and entries :: "node list"
    and st :: detector and dirs files st1 d name es
  assume "dirs = filter (\<lambda>d. is_dir d \<and> \<not> should_ignore_file cfg (path_join walk_dir (node_name d))) entries"
    and "d \<in> set dirs" and "d = Dir name es"
  then have "Dir name es \<in> set entries"
    by simp
  then have "size (Dir name es) \<le> size_list size entries"
    by (simp add: size_list_estimation')
  then show "((cfg, env, root, path_join walk_dir name, es, st1), (cfg, env, root, walk_dir, entries, st))
      \<in> measure (\<lambda>(cfg, env, root, walk_dir, entries, st). size_list size entries)"
    by simp
qed

declare scan_dir.simps [simp del]

text \<open>\<^verbatim>\<open>scan_repository\<close>: the state after the scan (the method returns two of its fields).\<close>

definition scan_repository :: "config \<Rightarrow> os_env \<Rightarrow> string \<Rightarrow> detector \<Rightarrow> detector" where
  "scan_repository cfg env root_path st =
     (let root = abspath (cwd env) root_path
      in scan_dir cfg env root root (scandir env root) (st\<lparr>root_dir := Some root\<rparr>))"

section \<open>The classifier\<close>

text \<open>
  \<^verbatim>\<open>_is_potentially_important\<close>: \<^verbatim>\<open>re.match\<close> anchors each pattern at the start of the
  lower-cased basename, and each pattern is a literal word followed by a literal dot.
\<close>

definition entry_point_patterns :: "string list" where
  "entry_point_patterns =
     [''main.'', ''index.'', ''app.'', ''server.'', ''start.'', ''run.'',
      ''__init__.'', ''setup.'', ''config.'', ''settings.'']"

definition is_potentially_important :: "string \<Rightarrow> bool" where
  "is_potentially_important file_path =
     (let filename = lower (basename file_path)
      in \<exists>pat \<in> set entry_point_patterns. take (length pat) filename = pat)"

record dead_files =
  unreferenced :: "string list"
  orphaned :: "string list"
  suspicious :: "string list"

text \<open>The body of the first loop of \<^verbatim>\<open>find_dead_files\<close>, for one path of \<^verbatim>\<open>all_files\<close>.\<close>

definition classify_file ::
    "config \<Rightarrow> os_env \<Rightarrow> detector \<Rightarrow> string \<Rightarrow> string \<Rightarrow> dead_files \<Rightarrow> dead_files" where
  "classify_file cfg env st root file_path d =
     (let rel_path = relpath (cwd env) file_path root
      in if basename file_path \<in> set (special_files cfg) then d
         else if file_path \<notin> dom (file_references st) then
           (if is_potentially_important file_path
            then d\<lparr>suspicious := suspicious d @ [rel_path]\<rparr>
            else d\<lparr>unreferenced := unreferenced d @ [rel_path]\<rparr>)
         else d)"

text \<open>The second loop: \<^verbatim>\<open>dir_file_count\<close> is a \<^verbatim>\<open>defaultdict(int)\<close>, a total function with default 0.\<close>

definition count_dir :: "string \<Rightarrow> (string \<Rightarrow> nat) \<Rightarrow> (string \<Rightarrow> nat)" where
  "count_dir file_path dir_file_count =
     (let dir_path = dirname file_path
      in dir_file_count(dir_path := dir_file_count dir_path + 1))"

definition dir_file_count :: "string list \<Rightarrow> string \<Rightarrow> nat" where
  "dir_file_count files = fold count_dir files (\<lambda>_. 0)"

text \<open>The body of the third loop; \<^verbatim>\<open>list.remove\<close> deletes the first occurrence.\<close>

definition orphan_file ::
    "os_env \<Rightarrow> (string \<Rightarrow> nat) \<Rightarrow> string \<Rightarrow> string \<Rightarrow> dead_files \<Rightarrow> dead_files" where
  "orphan_file env cnt root file_path d =
     (let dir_path = dirname file_path;
          rel_path = relpath (cwd env) file_path root
      in if cnt dir_path = 1 \<and> rel_path \<in> set (unreferenced d)
            \<and> \<not> is_potentially_important file_path
         then d\<lparr>orphaned := orphaned d @ [rel_path],
                unreferenced := remove1 rel_path (unreferenced d)\<rparr>
         else d)"

definition empty_dead_files :: dead_files where
  "empty_dead_files = \<lparr>unreferenced = [], orphaned = [], suspicious = []\<rparr>"

text \<open>
  \<^verbatim>\<open>find_dead_files\<close>. It raises \<^verbatim>\<open>ValueError\<close> on an empty \<^verbatim>\<open>all_files\<close>. The first loop then
  reads \<^verbatim>\<open>self.root_dir\<close>, an \<^verbatim>\<open>AttributeError\<close> when no scan has set it, and calls
  \<^verbatim>\<open>os.path.relpath\<close>, which raises \<^verbatim>\<open>ValueError\<close> on an empty path.
\<close>

definition find_dead_files :: "config \<Rightarrow> os_env \<Rightarrow> detector \<Rightarrow> error + dead_files" where
  "find_dead_files cfg env st =
     (if all_files st = [] then
        Inl (ValueError ''Repository not scanned yet. Call scan_repository() first.'')
      else case root_dir st of
        None \<Rightarrow> Inl (AttributeError ''root_dir'')
      | Some root \<Rightarrow>
          if [] \<in> set (all_files st) then Inl (ValueError ''no path specified'')
          else
            let d1 = fold (classify_file cfg env st root) (all_files st) empty_dead_files;
                cnt = dir_file_count (all_files st)
            in Inr (fold (orphan_file env cnt root) (all_files st) d1))"

section \<open>Two small repositories\<close>

text \<open>
  The repository \<^verbatim>\<open>/repo\<close> has \<^verbatim>\<open>src/main.py\<close>, which loads \<^verbatim>\<open>./helpers/parse\<close> by a quoted
  reference without extension, and \<^verbatim>\<open>src/helpers/parse.py\<close>, which refers to nothing.
\<close>

definition main_text :: string where
  "main_text = ''const p = require('' @ [CHR 0x22] @ ''./helpers/parse'' @ [CHR 0x22] @ '');''"

definition parse_text :: string where
  "parse_text = ''def parse(s): return s''"

definition example_env :: os_env where
  "example_env =
     \<lparr>cwd = ''/'',
      root_entries =
        [Dir ''repo''
           [Dir ''src''
              [File ''main.py'' (Some 40) (Some main_text),
               Dir ''helpers'' [File ''parse.py'' (Some 22) (Some parse_text)]]]]\<rparr>"

text \<open>
  The repository \<^verbatim>\<open>/proj\<close>: a \<^verbatim>\<open>README.md\<close>; \<^verbatim>\<open>utils.py\<close>, listed before \<^verbatim>\<open>main.py\<close>, which opens
  it by name; a directory \<^verbatim>\<open>lib\<close> with the single file \<^verbatim>\<open>legacy_helper.js\<close>; a directory \<^verbatim>\<open>docs\<close>
  with two text files; a directory \<^verbatim>\<open>tool\<close> whose single file \<^verbatim>\<open>self.py\<close> names itself in a
  quoted string; and a directory \<^verbatim>\<open>.env\<close> with one file.
\<close>

definition scenario_main_text :: string where
  "scenario_main_text = ''data = open('' @ [CHR 0x22] @ ''utils.py'' @ [CHR 0x22] @ '').read()''"

definition self_text :: string where
  "self_text = ''NAME = '' @ [CHR 0x27] @ ''self.py'' @ [CHR 0x27]"

definition scenario_env :: os_env where
  "scenario_env =
     \<lparr>cwd = ''/proj'',
      root_entries =
        [Dir ''proj''
           [File ''README.md'' (Some 12) (Some ''read me first''),
            File ''utils.py'' (Some 18) (Some ''def helper(): pass''),
            File ''main.py'' (Some 32) (Some scenario_main_text),
            Dir ''lib'' [File ''legacy_helper.js'' (Some 14) (Some ''var legacy = 1'')],
            Dir ''docs''
              [File ''old_notes.txt'' (Some 5) (Some ''notes''),
               File ''draft.txt'' (Some 5) (Some ''draft'')],
            Dir ''tool'' [File ''self.py'' (Some 16) (Some self_text)],
            Dir ''.env'' [File ''secrets.py'' (Some 9) (Some ''KEY = 123'')]]]\<rparr>"

text \<open>
  Two listings of a repository \<^verbatim>\<open>/repo\<close> with \<^verbatim>\<open>app.py\<close>, which loads \<^verbatim>\<open>./parse\<close>, and \<^verbatim>\<open>parse.py\<close>:
  the directory lists the referrer first in one and last in the other.
\<close>

definition app_text :: string where
  "app_text = ''const p = require('' @ [CHR 0x22] @ ''./parse'' @ [CHR 0x22] @ '');''"

definition referrer_first_env :: os_env where
  "referrer_first_env =
     \<lparr>cwd = ''/'',
      root_entries =
        [Dir ''repo''
           [File ''app.py'' (Some 26) (Some app_text),
            File ''parse.py'' (Some 22) (Some parse_text)]]\<rparr>"

definition referrer_last_env :: os_env where
  "referrer_last_env =
     \<lparr>cwd = ''/'',
      root_entries =
        [Dir ''repo''
           [File ''parse.py'' (Some 22) (Some parse_text),
            File ''app.py'' (Some 26) (Some app_text)]]\<rparr>"

text \<open>
  A repository \<^verbatim>\<open>/repo\<close> with version-control metadata in \<^verbatim>\<open>.git\<close>, a dependency cache
  \<^verbatim>\<open>node_modules\<close> at the top and another below \<^verbatim>\<open>src\<close>, and a directory \<^verbatim>\<open>tmp1\<close>; and the
  default configuration with one more ignore pattern, \<^verbatim>\<open>tmp?\<close>.
\<close>

definition pruning_env :: os_env where
  "pruning_env =
     \<lparr>cwd = ''/'',
      root_entries =
        [Dir ''repo''
           [File ''main.py'' (Some 5) (Some ''x = 1''),
            Dir ''.git''
              [File ''config'' (Some 6) (Some ''[core]''),
               Dir ''objects'' [File ''pack'' (Some 4) (Some ''data'')]],
            Dir ''node_modules'' [Dir ''pkg'' [File ''index.js'' (Some 9) (Some ''var a = 1'')]],
            Dir ''src'' [Dir ''node_modules'' [File ''y.js'' (Some 9) (Some ''var y = 2'')]],
            Dir ''tmp1'' [File ''a.py'' (Some 5) (Some ''a = 1'')]]]\<rparr>"

definition extended_config :: config where
  "extended_config = default_config\<lparr>ignore_patterns := ignore_patterns default_config @ [''tmp?'']\<rparr>"

section \<open>Auxiliary notions for the proofs\<close>

text \<open>
  The pairs of a directory and one of its files that the loop over \<^verbatim>\<open>os.walk\<close> visits, in
  order: the scan is a fold of \<^const>\<open>scan_file\<close> over this list.
\<close>

function walk :: "config \<Rightarrow> string \<Rightarrow> node list \<Rightarrow> (string \<times> node) list" where
  "walk cfg walk_dir entries =
     map (\<lambda>f. (walk_dir, f)) (filter (\<lambda>f. \<not> is_dir f) entries)
     @ concat (map (\<lambda>d. case d of
                          Dir name es \<Rightarrow> walk cfg (path_join walk_dir name) es
                        | File _ _ _ \<Rightarrow> [])
                   (filter (\<lambda>d. is_dir d \<and> \<not> should_ignore_file cfg (path_join walk_dir (node_name d))) entries))"
  by pat_completeness auto
termination
proof (relation "measure (\<lambda>(cfg, walk_dir, entries). size_list size entries)")
  show "wf (measure (\<lambda>(cfg, walk_dir, entries). size_list size entries))"
    by simp
next
  fix cfg :: config and walk_dir :: string and entries :: "node list" and d name es
  assume "d \<in> set (filter (\<lambda>d. is_dir d \<and> \<not> should_ignore_file cfg (path_join walk_dir (node_name d))) entries)"
    and "d = Dir name es"
  then have "Dir name es \<in> set entries"
    by simp
  then have "size (Dir name es) \<le> size_list size entries"
    by (simp add: size_list_estimation')
  then show "((cfg, path_join walk_dir name, es), (cfg, walk_dir, entries))
      \<in> measure (\<lambda>(cfg, walk_dir, entries). size_list size entries)"
    by simp
qed

declare walk.simps [simp del]


text \<open>
  A proper name is what a directory entry can be called. A canonical path is \<open>k\<close> slashes
  followed by proper names joined by single slashes: the form of every path that
  \<^verbatim>\<open>os.path.normpath\<close> returns for an absolute path.
\<close>

definition proper_name :: "string \<Rightarrow> bool" where
  "proper_name c \<longleftrightarrow> c \<noteq> [] \<and> sep \<notin> set c \<and> c \<noteq> ''.'' \<and> c \<noteq> ''..''"

definition canon :: "nat \<Rightarrow> string list \<Rightarrow> string" where
  "canon k cs = replicate k sep @ join_sep cs"


text \<open>
  A well-formed tree has proper names throughout; a well-formed environment has an absolute
  current directory too.
\<close>

fun wf_node :: "node \<Rightarrow> bool" where
  "wf_node (File name sz content) = proper_name name"
| "wf_node (Dir name es) = (proper_name name \<and> (\<forall>n \<in> set es. wf_node n))"

definition wf_env :: "os_env \<Rightarrow> bool" where
  "wf_env env \<longleftrightarrow>
     cwd env \<noteq> [] \<and> hd (cwd env) = sep \<and> (\<forall>n \<in> set (root_entries env). wf_node n)"

text \<open>The guards of \<^const>\<open>scan_file\<close> before \<^verbatim>\<open>self.all_files.add\<close>, and the referrers of a path.\<close>

definition tracked :: "config \<Rightarrow> os_env \<Rightarrow> string \<Rightarrow> string \<Rightarrow> node \<Rightarrow> bool" where
  "tracked cfg env root walk_dir n =
     (case n of
        File name sz content \<Rightarrow>
          \<not> should_ignore_file cfg (relpath (cwd env) (path_join walk_dir name) root)
          \<and> (case sz of None \<Rightarrow> False
              | Some k \<Rightarrow> min_file_size cfg \<le> int k \<and> int k \<le> max_file_size cfg)
      | Dir name es \<Rightarrow> False)"

definition referrers :: "detector \<Rightarrow> string \<Rightarrow> string set" where
  "referrers st k = (case file_references st k of None \<Rightarrow> {} | Some refs \<Rightarrow> refs)"


definition resolved_set :: "config \<Rightarrow> os_env \<Rightarrow> string \<Rightarrow> string \<Rightarrow> string \<Rightarrow> string set" where
  "resolved_set cfg env root file_path content =
     (\<Union>ref \<in> set (extract_references cfg content). set (resolve_reference env root ref file_path))"

definition scanned_targets :: "config \<Rightarrow> os_env \<Rightarrow> string \<Rightarrow> string \<Rightarrow> node \<Rightarrow> string set" where
  "scanned_targets cfg env root walk_dir n =
     (case n of
        File name sz content \<Rightarrow>
          (case content of
             None \<Rightarrow> {}
           | Some text \<Rightarrow>
               if tracked cfg env root walk_dir n
                  \<and> is_scannable_file cfg (relpath (cwd env) (path_join walk_dir name) root)
               then resolved_set cfg env root (path_join walk_dir name) text
               else {})
      | Dir name es \<Rightarrow> {})"

definition scan_steps :: "config \<Rightarrow> os_env \<Rightarrow> string \<Rightarrow> (string \<times> node) list \<Rightarrow> detector \<Rightarrow> detector" where
  "scan_steps cfg env root xs st = fold (\<lambda>(d, f). scan_file cfg env root d f) xs st"

definition dead_candidate :: "config \<Rightarrow> detector \<Rightarrow> string \<Rightarrow> bool" where
  "dead_candidate cfg st f \<longleftrightarrow>
     basename f \<notin> set (special_files cfg) \<and> f \<notin> dom (file_references st)"
section \<open>Lemmas: the walk\<close>

lemma fold_concat_map: "fold f (concat (map g xs)) s = fold (\<lambda>x. fold f (g x)) xs s"
  by (induction xs arbitrary: s) simp_all

lemma scan_dir_walk:
  "scan_dir cfg env root walk_dir entries st =
     fold (\<lambda>(d, f). scan_file cfg env root d f) (walk cfg walk_dir entries) st"
proof (induction cfg env root walk_dir entries st rule: scan_dir.induct)
  case (1 cfg env root walk_dir entries st)
  let ?dirs = "filter (\<lambda>d. is_dir d \<and> \<not> should_ignore_file cfg (path_join walk_dir (node_name d))) entries"
  let ?files = "filter (\<lambda>f. \<not> is_dir f) entries"
  let ?F = "\<lambda>(d, f). scan_file cfg env root d f"
  have files: "fold ?F (map (\<lambda>f. (walk_dir, f)) ?files) s = fold (scan_file cfg env root walk_dir) ?files s" for s
    by (simp add: fold_map comp_def)
  have dirs: "fold (\<lambda>d. case d of Dir name es \<Rightarrow> scan_dir cfg env root (path_join walk_dir name) es | File _ _ _ \<Rightarrow> id) ?dirs s
      = fold (\<lambda>d. fold ?F (case d of Dir name es \<Rightarrow> walk cfg (path_join walk_dir name) es | File _ _ _ \<Rightarrow> [])) ?dirs s" for s
  proof (rule fold_cong [OF refl refl])
    fix d assume d: "d \<in> set ?dirs"
    show "(case d of Dir name es \<Rightarrow> scan_dir cfg env root (path_join walk_dir name) es | File _ _ _ \<Rightarrow> id)
        = fold ?F (case d of Dir name es \<Rightarrow> walk cfg (path_join walk_dir name) es | File _ _ _ \<Rightarrow> [])"
    proof (cases d)
      case (File a b c)
      then show ?thesis by (simp add: fun_eq_iff)
    next
      case (Dir name es)
      have "scan_dir cfg env root (path_join walk_dir name) es s
          = fold ?F (walk cfg (path_join walk_dir name) es) s" for s
        using "1.IH" [OF refl refl refl d Dir] .
      with Dir show ?thesis by (simp add: fun_eq_iff)
    qed
  qed
  show ?case
    apply (subst scan_dir.simps)
    apply (subst walk.simps)
    apply (simp only: Let_def fold_append comp_def files dirs fold_concat_map)
    done
qed

section \<open>Lemmas: paths\<close>

lemma split_sep_nonempty [simp]: "split_sep s \<noteq> []"
  by (induction s) (auto split: list.splits)

lemma split_sep_Cons [simp]:
  "split_sep (c # cs) =
     (if c = sep then [] # split_sep cs else (c # hd (split_sep cs)) # tl (split_sep cs))"
  by (cases "split_sep cs") auto

declare split_sep.simps(2) [simp del]

lemma split_sep_no_sep: "c \<in> set (split_sep s) \<Longrightarrow> sep \<notin> set c"
proof (induction s arbitrary: c)
  case Nil
  then show ?case by simp
next
  case (Cons a s)
  show ?case
  proof (cases "a = sep")
    case True
    with Cons show ?thesis by auto
  next
    case False
    obtain x xs where xs: "split_sep s = x # xs"
      by (cases "split_sep s") auto
    with Cons False show ?thesis by auto
  qed
qed

lemma split_sep_append: "split_sep (a @ sep # b) = split_sep a @ split_sep b"
proof (induction a)
  case Nil
  then show ?case by simp
next
  case (Cons c a)
  obtain x xs where "split_sep a = x # xs"
    by (cases "split_sep a") auto
  with Cons show ?case by simp
qed

lemma split_sep_sepfree: "sep \<notin> set c \<Longrightarrow> split_sep c = [c]"
  by (induction c) auto

lemma split_sep_join_sep:
  "cs \<noteq> [] \<Longrightarrow> \<forall>c \<in> set cs. sep \<notin> set c \<Longrightarrow> split_sep (join_sep cs) = cs"
proof (induction cs rule: join_sep.induct)
  case 1
  then show ?case by simp
next
  case (2 x)
  then show ?case by (simp add: split_sep_sepfree)
next
  case (3 x y ys)
  then show ?case by (simp add: split_sep_append split_sep_sepfree)
qed

lemma join_sep_snoc: "cs \<noteq> [] \<Longrightarrow> join_sep (cs @ [c]) = join_sep cs @ sep # c"
  by (induction cs rule: join_sep.induct) auto

lemma join_sep_nonempty: "cs \<noteq> [] \<Longrightarrow> \<forall>c \<in> set cs. c \<noteq> [] \<Longrightarrow> join_sep cs \<noteq> []"
  by (induction cs rule: join_sep.induct) auto

lemma join_sep_last:
  "cs \<noteq> [] \<Longrightarrow> \<forall>c \<in> set cs. c \<noteq> [] \<Longrightarrow> last (join_sep cs) = last (last cs)"
  by (induction cs rule: join_sep.induct) (auto simp: join_sep_nonempty)

lemma join_sep_hd:
  "cs \<noteq> [] \<Longrightarrow> \<forall>c \<in> set cs. c \<noteq> [] \<Longrightarrow> hd (join_sep cs) = hd (hd cs)"
  by (induction cs rule: join_sep.induct) auto

lemma split_sep_replicate: "split_sep (replicate k sep @ s) = replicate k [] @ split_sep s"
  by (induction k) auto

lemma split_sep_slashes: "split_sep (replicate k sep) = replicate (Suc k) []"
  by (induction k) auto

lemma path_comps_canon:
  assumes "\<forall>c \<in> set cs. proper_name c"
  shows "path_comps (canon k cs) = cs"
proof (cases "cs = []")
  case True
  then show ?thesis
    by (simp add: path_comps_def canon_def split_sep_slashes)
next
  case False
  moreover have "filter (\<lambda>x. x \<noteq> []) cs = cs"
    using assms by (auto simp: proper_name_def filter_id_conv)
  ultimately show ?thesis
    using assms
    by (simp add: path_comps_def canon_def split_sep_replicate split_sep_join_sep proper_name_def)
qed

lemma canon_inject:
  "\<forall>c \<in> set cs. proper_name c \<Longrightarrow> \<forall>c \<in> set cs'. proper_name c \<Longrightarrow> canon k cs = canon k' cs' \<Longrightarrow> cs = cs'"
  by (metis path_comps_canon)

lemma join_sep_inject:
  assumes "\<forall>c \<in> set cs. proper_name c" "\<forall>c \<in> set cs'. proper_name c" "join_sep cs = join_sep cs'"
  shows "cs = cs'"
  using canon_inject [OF assms(1,2), of 0 0] assms(3) by (simp add: canon_def)

lemma proper_name_hd: "proper_name c \<Longrightarrow> hd c \<noteq> sep"
  by (cases c) (auto simp: proper_name_def)

lemma path_join_proper:
  "a \<noteq> [] \<Longrightarrow> last a \<noteq> sep \<Longrightarrow> proper_name c \<Longrightarrow> path_join a c = a @ sep # c"
  by (simp add: path_join_def proper_name_hd)

lemma join_sep_proper_last:
  assumes "cs \<noteq> []" "\<forall>c \<in> set cs. proper_name c"
  shows "join_sep cs \<noteq> [] \<and> last (join_sep cs) \<noteq> sep"
proof -
  have ne: "\<forall>c \<in> set cs. c \<noteq> []"
    using assms(2) by (auto simp: proper_name_def)
  have "last cs \<in> set cs"
    using assms(1) by simp
  then have "last cs \<noteq> []" "sep \<notin> set (last cs)"
    using assms(2) by (auto simp: proper_name_def)
  then have "last (last cs) \<noteq> sep"
    using last_in_set by metis
  then show ?thesis
    using join_sep_nonempty [OF assms(1) ne] join_sep_last [OF assms(1) ne] by simp
qed

lemma path_join_canon:
  assumes "\<forall>c \<in> set cs. proper_name c" "proper_name c" "0 < k"
  shows "path_join (canon k cs) c = canon k (cs @ [c])"
proof (cases "cs = []")
  case True
  with assms show ?thesis
    by (cases k) (auto simp: path_join_def canon_def proper_name_hd)
next
  case False
  have "canon k cs \<noteq> []" "last (canon k cs) \<noteq> sep"
    using join_sep_proper_last [OF False assms(1)] by (simp_all add: canon_def)
  then show ?thesis
    using False assms(2) by (simp add: path_join_proper) (simp add: canon_def join_sep_snoc)
qed

lemma foldl_path_join_canon:
  "\<forall>c \<in> set cs. proper_name c \<Longrightarrow> \<forall>c \<in> set ds. proper_name c \<Longrightarrow> 0 < k \<Longrightarrow>
     foldl path_join (canon k cs) ds = canon k (cs @ ds)"
proof (induction ds arbitrary: cs)
  case Nil
  then show ?case by simp
next
  case (Cons d ds)
  have "foldl path_join (canon k (cs @ [d])) ds = canon k ((cs @ [d]) @ ds)"
    by (rule Cons.IH) (use Cons.prems in auto)
  with Cons.prems show ?case
    by (simp add: path_join_canon)
qed

lemma foldl_path_join_rel:
  "\<forall>x \<in> set (c # cs). proper_name x \<Longrightarrow> foldl path_join c cs = join_sep (c # cs)"
proof (induction cs rule: rev_induct)
  case Nil
  then show ?case by simp
next
  case (snoc x xs)
  have "join_sep (c # xs) \<noteq> [] \<and> last (join_sep (c # xs)) \<noteq> sep"
    by (rule join_sep_proper_last) (use snoc.prems in auto)
  moreover have "join_sep (c # xs @ [x]) = join_sep (c # xs) @ sep # x"
    using join_sep_snoc [of "c # xs" x] by simp
  moreover have "foldl path_join c xs = join_sep (c # xs)"
    by (rule snoc.IH) (use snoc.prems in auto)
  moreover have "proper_name x"
    using snoc.prems by simp
  ultimately show ?case
    by (simp add: path_join_proper)
qed

lemma norm_step_proper:
  assumes "\<forall>c \<in> set acc. proper_name c" "sep \<notin> set x"
  shows "\<forall>c \<in> set (norm_step True acc x). proper_name c"
proof -
  have "last acc \<noteq> ''..''" if "acc \<noteq> []"
    using assms(1) that last_in_set [OF that] by (auto simp: proper_name_def)
  then show ?thesis
    using assms by (auto simp: norm_step_def proper_name_def dest: in_set_butlastD)
qed

lemma foldl_norm_step_proper:
  "\<forall>c \<in> set acc. proper_name c \<Longrightarrow> \<forall>x \<in> set xs. sep \<notin> set x \<Longrightarrow>
     \<forall>c \<in> set (foldl (norm_step True) acc xs). proper_name c"
proof (induction xs arbitrary: acc)
  case Nil
  then show ?case by simp
next
  case (Cons x xs)
  have "\<forall>c \<in> set (norm_step True acc x). proper_name c"
    by (rule norm_step_proper) (use Cons.prems in auto)
  then show ?case
    using Cons.IH [of "norm_step True acc x"] Cons.prems by simp
qed

lemma norm_comps_proper: "\<forall>c \<in> set (norm_comps True (split_sep p)). proper_name c"
  unfolding norm_comps_def
  by (rule foldl_norm_step_proper) (auto dest: split_sep_no_sep)

lemma foldl_norm_step_id:
  "\<forall>c \<in> set cs. proper_name c \<Longrightarrow> foldl (norm_step b) acc cs = acc @ cs"
  by (induction cs arbitrary: acc) (auto simp: norm_step_def proper_name_def)

lemma foldl_norm_step_empties: "foldl (norm_step b) acc (replicate k [] @ cs) = foldl (norm_step b) acc cs"
  by (induction k) (auto simp: norm_step_def)

lemma foldl_norm_step_slashes: "foldl (norm_step b) acc (replicate k []) = acc"
  by (induction k) (auto simp: norm_step_def)

lemma initial_slashes_abs: "p \<noteq> [] \<Longrightarrow> hd p = sep \<Longrightarrow> initial_slashes p = 1 \<or> initial_slashes p = 2"
  by (simp add: initial_slashes_def)

lemma initial_slashes_canon:
  assumes "k = 1 \<or> k = 2" "\<forall>c \<in> set cs. proper_name c"
  shows "initial_slashes (canon k cs) = k"
proof (cases "cs = []")
  case True
  with assms(1) show ?thesis
    by (auto simp: initial_slashes_def canon_def numeral_2_eq_2 numeral_3_eq_3)
next
  case False
  have ne: "\<forall>c \<in> set cs. c \<noteq> []"
    using assms(2) by (auto simp: proper_name_def)
  have "hd cs \<in> set cs"
    using False by simp
  then have "hd (hd cs) \<noteq> sep"
    using assms(2) proper_name_hd by blast
  then have "hd (join_sep cs) \<noteq> sep" "join_sep cs \<noteq> []"
    using join_sep_hd [OF False ne] join_sep_nonempty [OF False ne] by simp_all
  then obtain a s where "join_sep cs = a # s" "a \<noteq> sep"
    by (cases "join_sep cs") auto
  with assms(1) show ?thesis
    by (auto simp: initial_slashes_def canon_def numeral_2_eq_2 numeral_3_eq_3)
qed

lemma canon_nonempty: "0 < k \<Longrightarrow> canon k cs \<noteq> [] \<and> hd (canon k cs) = sep"
  by (cases k) (auto simp: canon_def)

lemma split_sep_canon:
  assumes "\<forall>c \<in> set cs. proper_name c"
  shows "split_sep (canon k cs) = replicate k [] @ (if cs = [] then [[]] else cs)"
  using assms
  by (auto simp: canon_def split_sep_replicate split_sep_join_sep proper_name_def)

lemma normpath_canon:
  assumes "k = 1 \<or> k = 2" "\<forall>c \<in> set cs. proper_name c"
  shows "normpath (canon k cs) = canon k cs"
proof -
  have k: "0 < k" using assms(1) by auto
  have "norm_comps True (split_sep (canon k cs)) = cs"
    using assms(2)
    by (auto simp: norm_comps_def split_sep_canon foldl_norm_step_empties foldl_norm_step_id
        foldl_norm_step_slashes norm_step_def)
  moreover have "initial_slashes (canon k cs) = k"
    by (rule initial_slashes_canon) fact+
  ultimately show ?thesis
    using k canon_nonempty [OF k, of cs]
    by (simp add: normpath_def Let_def) (simp add: canon_def)
qed

lemma normpath_abs:
  assumes "p \<noteq> []" "hd p = sep"
  shows "\<exists>k cs. (k = 1 \<or> k = 2) \<and> (\<forall>c \<in> set cs. proper_name c) \<and> normpath p = canon k cs"
proof -
  let ?k = "initial_slashes p"
  let ?cs = "norm_comps True (split_sep p)"
  have k: "?k = 1 \<or> ?k = 2"
    by (rule initial_slashes_abs) fact+
  then have "normpath p = canon ?k ?cs"
    using assms(1) by (auto simp: normpath_def Let_def canon_def)
  with k norm_comps_proper show ?thesis
    by blast
qed

lemma path_join_abs: "p \<noteq> [] \<Longrightarrow> hd p = sep \<Longrightarrow> path_join wd p = p"
  by (simp add: path_join_def)

lemma abspath_canon:
  "k = 1 \<or> k = 2 \<Longrightarrow> \<forall>c \<in> set cs. proper_name c \<Longrightarrow> abspath wd (canon k cs) = canon k cs"
  using canon_nonempty [of k cs] by (auto simp: abspath_def path_join_abs normpath_canon)

lemma commonprefix_append: "commonprefix xs (xs @ ys) = xs"
  by (induction xs) auto

lemma relpath_canon:
  assumes "k = 1 \<or> k = 2" "k' = 1 \<or> k' = 2"
    and "\<forall>c \<in> set rs. proper_name c" "\<forall>c \<in> set cs. proper_name c" "cs \<noteq> []"
  shows "relpath wd (canon k (rs @ cs)) (canon k' rs) = join_sep cs"
proof -
  have all: "\<forall>c \<in> set (rs @ cs). proper_name c"
    using assms by auto
  have start: "path_comps (abspath wd (canon k' rs)) = rs"
    by (simp add: abspath_canon [OF assms(2,3)] path_comps_canon [OF assms(3)])
  have path: "path_comps (abspath wd (canon k (rs @ cs))) = rs @ cs"
    by (simp only: abspath_canon [OF assms(1) all] path_comps_canon [OF all])
  have "foldl path_join (hd cs) (tl cs) = join_sep (hd cs # tl cs)"
    by (rule foldl_path_join_rel) (use assms(4,5) in \<open>auto dest: list.set_sel\<close>)
  then show ?thesis
    using assms(5)
    by (simp add: relpath_def Let_def start path commonprefix_append)
qed

section \<open>Lemmas: well-formed trees\<close>

lemma walk_path_wf:
  "stk \<noteq> [] \<Longrightarrow> \<forall>es \<in> set stk. \<forall>n \<in> set es. wf_node n \<Longrightarrow> walk_path stk cs = Some (Dir nm es)
     \<Longrightarrow> \<forall>n \<in> set es. wf_node n"
proof (induction cs arbitrary: stk)
  case Nil
  then show ?case by (cases stk) auto
next
  case (Cons c cs)
  show ?case
  proof (cases "c = [] \<or> c = ''.''")
    case True
    then have "walk_path stk cs = Some (Dir nm es)"
      using Cons.prems(3) by auto
    then show ?thesis
      using Cons.IH [OF Cons.prems(1,2)] by blast
  next
    case False
    note nodot = this
    show ?thesis
    proof (cases "c = ''..''")
      case True
      let ?stk = "if 1 < length stk then tl stk else stk"
      have "set ?stk \<subseteq> set stk"
        by (cases stk) auto
      then have "\<forall>es \<in> set ?stk. \<forall>n \<in> set es. wf_node n"
        using Cons.prems(2) by blast
      moreover have "?stk \<noteq> []"
        using Cons.prems(1) by (cases stk) auto
      moreover have "walk_path ?stk cs = Some (Dir nm es)"
        using Cons.prems(3) True by simp
      ultimately show ?thesis
        using Cons.IH [of ?stk] by blast
    next
      case False
      have step: "walk_path stk (c # cs) =
        (case find (\<lambda>n. node_name n = c) (hd stk) of
             None \<Rightarrow> None
           | Some (File name sz content) \<Rightarrow> if cs = [] then Some (File name sz content) else None
           | Some (Dir name es) \<Rightarrow> walk_path (es # stk) cs)"
        using nodot False by simp
      show ?thesis
      proof (cases "find (\<lambda>n. node_name n = c) (hd stk)")
        case None
        with Cons.prems(3) step show ?thesis by simp
      next
        case (Some n)
        then have mem: "n \<in> set (hd stk)"
          by (auto simp: find_Some_iff)
        have "hd stk \<in> set stk"
          using Cons.prems(1) by simp
        with mem Cons.prems(2) have wfn: "wf_node n"
          by blast
        show ?thesis
        proof (cases n)
          case (File a b c')
          with Some Cons.prems(3) step show ?thesis
            by (simp split: if_splits)
        next
          case (Dir name es')
          with wfn have wfs: "\<forall>es \<in> set (es' # stk). \<forall>n \<in> set es. wf_node n"
            using Cons.prems(2) by auto
          have inner: "walk_path (es' # stk) cs = Some (Dir nm es)"
            using Some Dir Cons.prems(3) step by simp
          show ?thesis
            by (rule Cons.IH [OF _ wfs inner]) simp
        qed
      qed
    qed
  qed
qed

lemma scandir_wf: "wf_env env \<Longrightarrow> \<forall>n \<in> set (scandir env p). wf_node n"
proof (cases "lookup_path env p")
  case None
  then show ?thesis by (simp add: scandir_def)
next
  case (Some n)
  assume wf: "wf_env env"
  show ?thesis
  proof (cases n)
    case (File a b c)
    with Some show ?thesis by (simp add: scandir_def)
  next
    case (Dir nm es)
    with Some have "walk_path [root_entries env] (split_sep (path_join (cwd env) p)) = Some (Dir nm es)"
      by (auto simp: lookup_path_def split: if_splits)
    then have "\<forall>n \<in> set es. wf_node n"
      using wf by (intro walk_path_wf [of "[root_entries env]"]) (auto simp: wf_env_def)
    with Some Dir show ?thesis by (simp add: scandir_def)
  qed
qed

lemma walk_props:
  assumes "\<forall>n \<in> set es. wf_node n" "\<forall>c \<in> set ws. proper_name c" "0 < k"
    and "(d, n) \<in> set (walk cfg walk_dir es)" "walk_dir = canon k ws"
  shows "\<exists>ds name sz content. d = canon k (ws @ ds) \<and> (\<forall>c \<in> set ds. proper_name c)
           \<and> n = File name sz content \<and> proper_name name
           \<and> (\<forall>j. 0 < j \<and> j \<le> length ds \<longrightarrow> \<not> should_ignore_file cfg (canon k (ws @ take j ds)))"
  using assms
proof (induction cfg walk_dir es arbitrary: ws rule: walk.induct)
  case (1 cfg walk_dir entries)
  let ?dirs = "filter (\<lambda>d. is_dir d \<and> \<not> should_ignore_file cfg (path_join walk_dir (node_name d))) entries"
  from "1.prems"(4) consider
      (at_top) "d = walk_dir" "n \<in> set entries" "\<not> is_dir n"
    | (below) dd where "dd \<in> set ?dirs"
        "(d, n) \<in> set (case dd of Dir name es \<Rightarrow> walk cfg (path_join walk_dir name) es | File _ _ _ \<Rightarrow> [])"
    by (subst (asm) walk.simps) auto
  then show ?case
  proof cases
    case at_top
    then obtain name sz content where n: "n = File name sz content"
      by (cases n) auto
    with at_top "1.prems"(1) have "proper_name name"
      by auto
    with at_top n "1.prems"(5)
    have "d = canon k (ws @ []) \<and> (\<forall>c \<in> set []. proper_name c)
           \<and> n = File name sz content \<and> proper_name name
           \<and> (\<forall>j. 0 < j \<and> j \<le> length ([]::string list) \<longrightarrow> \<not> should_ignore_file cfg (canon k (ws @ take j [])))"
      by simp
    then show ?thesis
      by (intro exI)
  next
    case below
    then obtain name es' where dd: "dd = Dir name es'"
      by (cases dd) auto
    with below have mem: "Dir name es' \<in> set entries"
      and notign: "\<not> should_ignore_file cfg (path_join walk_dir name)"
      and inner: "(d, n) \<in> set (walk cfg (path_join walk_dir name) es')"
      by auto
    from mem "1.prems"(1) have pn: "proper_name name" and wf': "\<forall>n \<in> set es'. wf_node n"
      by auto
    have pj: "path_join walk_dir name = canon k (ws @ [name])"
      using "1.prems"(2,3,5) pn by (simp add: path_join_canon)
    have ws': "\<forall>c \<in> set (ws @ [name]). proper_name c"
      using "1.prems"(2) pn by simp
    from "1.IH" [OF _ dd wf' ws' "1.prems"(3) inner pj] below(1)
    obtain ds nm sz content where ds: "d = canon k ((ws @ [name]) @ ds)" "\<forall>c \<in> set ds. proper_name c"
      "n = File nm sz content" "proper_name nm"
      "\<forall>j. 0 < j \<and> j \<le> length ds \<longrightarrow> \<not> should_ignore_file cfg (canon k ((ws @ [name]) @ take j ds))"
      by blast
    have ign: "\<not> should_ignore_file cfg (canon k (ws @ take j (name # ds)))" if "0 < j" "j \<le> length (name # ds)" for j
    proof (cases j)
      case 0
      with that show ?thesis by simp
    next
      case (Suc i)
      show ?thesis
      proof (cases "i = 0")
        case True
        with Suc notign pj show ?thesis by simp
      next
        case False
        with Suc that ds(5) [rule_format, of i] show ?thesis by simp
      qed
    qed
    have "d = canon k (ws @ name # ds) \<and> (\<forall>c \<in> set (name # ds). proper_name c)
           \<and> n = File nm sz content \<and> proper_name nm
           \<and> (\<forall>j. 0 < j \<and> j \<le> length (name # ds) \<longrightarrow> \<not> should_ignore_file cfg (canon k (ws @ take j (name # ds))))"
      using ds(1-4) pn ign by simp
    then show ?thesis
      by (intro exI)
  qed
qed

lemma add_reference_all_files [simp]: "all_files (add_reference f r st) = all_files st"
  by (simp add: add_reference_def)

lemma add_reference_root_dir [simp]: "root_dir (add_reference f r st) = root_dir st"
  by (simp add: add_reference_def)

lemma referrers_add_reference:
  "referrers (add_reference f r st) k =
     (if k = r \<and> r \<in> set (all_files st) then insert f (referrers st k) else referrers st k)"
  by (simp add: add_reference_def referrers_def)

lemma dom_add_reference:
  "dom (file_references (add_reference f r st)) =
     dom (file_references st) \<union> (if r \<in> set (all_files st) then {r} else {})"
  by (auto simp: add_reference_def)

lemma fold_add_reference_all_files [simp]:
  "all_files (fold (add_reference f) rs st) = all_files st"
  by (induction rs arbitrary: st) simp_all

lemma fold_add_reference_root_dir [simp]:
  "root_dir (fold (add_reference f) rs st) = root_dir st"
  by (induction rs arbitrary: st) simp_all

lemma referrers_fold_add_reference:
  "referrers (fold (add_reference f) rs st) k =
     referrers st k \<union> (if k \<in> set rs \<and> k \<in> set (all_files st) then {f} else {})"
  by (induction rs arbitrary: st) (auto simp: referrers_add_reference)

lemma dom_fold_add_reference:
  "dom (file_references (fold (add_reference f) rs st)) =
     dom (file_references st) \<union> (set rs \<inter> set (all_files st))"
  by (induction rs arbitrary: st) (auto simp: dom_add_reference)

lemma fold_fold_all_files [simp]:
  "all_files (fold (\<lambda>ref. fold (add_reference f) (g ref)) refs st) = all_files st"
  by (induction refs arbitrary: st) simp_all

lemma fold_fold_root_dir [simp]:
  "root_dir (fold (\<lambda>ref. fold (add_reference f) (g ref)) refs st) = root_dir st"
  by (induction refs arbitrary: st) simp_all

lemma referrers_fold_fold:
  "referrers (fold (\<lambda>ref. fold (add_reference f) (g ref)) refs st) k =
     referrers st k \<union> (if k \<in> (\<Union>ref \<in> set refs. set (g ref)) \<and> k \<in> set (all_files st)
                        then {f} else {})"
proof (induction refs arbitrary: st)
  case Nil
  then show ?case by simp
next
  case (Cons r refs)
  show ?case
    by (simp add: Cons [of "fold (add_reference f) (g r) st"] referrers_fold_add_reference)
qed

lemma dom_fold_fold:
  "dom (file_references (fold (\<lambda>ref. fold (add_reference f) (g ref)) refs st)) =
     dom (file_references st) \<union> ((\<Union>ref \<in> set refs. set (g ref)) \<inter> set (all_files st))"
proof (induction refs arbitrary: st)
  case Nil
  then show ?case by simp
next
  case (Cons r refs)
  have "dom (file_references (fold (\<lambda>ref. fold (add_reference f) (g ref)) (r # refs) st)) =
      (dom (file_references st) \<union> (set (g r) \<inter> set (all_files st)))
      \<union> ((\<Union>ref \<in> set refs. set (g ref)) \<inter> set (all_files st))"
    by (simp add: Cons [of "fold (add_reference f) (g r) st"] dom_fold_add_reference)
  also have "\<dots> = dom (file_references st)
      \<union> ((\<Union>ref \<in> set (r # refs). set (g ref)) \<inter> set (all_files st))"
    by auto
  finally show ?case .
qed

lemma scan_references_all_files [simp]:
  "all_files (scan_references cfg env root f content st) = all_files st"
  by (simp add: scan_references_def)

lemma scan_references_root_dir [simp]:
  "root_dir (scan_references cfg env root f content st) = root_dir st"
  by (simp add: scan_references_def)

lemma referrers_scan_references:
  "referrers (scan_references cfg env root f content st) k =
     referrers st k \<union> (if k \<in> resolved_set cfg env root f content \<and> k \<in> set (all_files st)
                        then {f} else {})"
  by (simp only: scan_references_def resolved_set_def referrers_fold_fold)

lemma dom_scan_references:
  "dom (file_references (scan_references cfg env root f content st)) =
     dom (file_references st) \<union> (resolved_set cfg env root f content \<inter> set (all_files st))"
  by (simp only: scan_references_def resolved_set_def dom_fold_fold)

lemma set_set_add [simp]: "set (set_add x xs) = insert x (set xs)"
  by (auto simp: set_add_def)

lemma distinct_set_add [simp]: "distinct (set_add x xs) = distinct xs"
  by (auto simp: set_add_def)

lemma scan_file_root_dir [simp]: "root_dir (scan_file cfg env root d n st) = root_dir st"
  by (cases n) (auto simp: Let_def split: option.splits)

lemma scan_file_all_files:
  "set (all_files (scan_file cfg env root d n st)) =
     set (all_files st) \<union> (if tracked cfg env root d n then {path_join d (node_name n)} else {})"
  by (cases n) (auto simp: Let_def tracked_def split: option.splits)

lemma scan_file_distinct:
  "distinct (all_files st) \<Longrightarrow> distinct (all_files (scan_file cfg env root d n st))"
  by (cases n) (auto simp: Let_def split: option.splits)

lemma referrers_update_all_files [simp]:
  "referrers (st\<lparr>all_files := xs\<rparr>) k = referrers st k"
  by (simp add: referrers_def)

lemma scan_file_referrers:
  "referrers (scan_file cfg env root d n st) k =
     referrers st k \<union>
       (if k \<in> scanned_targets cfg env root d n \<and> k \<in> set (all_files (scan_file cfg env root d n st))
        then {path_join d (node_name n)} else {})"
proof (cases n)
  case (Dir name es)
  then show ?thesis by (simp add: scanned_targets_def)
next
  case (File name sz content)
  show ?thesis
  proof (cases "tracked cfg env root d n")
    case False
    with File show ?thesis
      by (auto simp: Let_def tracked_def scanned_targets_def split: option.splits)
  next
    case True
    with File show ?thesis
      by (auto simp: Let_def tracked_def scanned_targets_def referrers_scan_references
          split: option.splits)
  qed
qed

lemma scan_file_dom:
  "dom (file_references (scan_file cfg env root d n st)) =
     dom (file_references st) \<union>
       (scanned_targets cfg env root d n \<inter> set (all_files (scan_file cfg env root d n st)))"
proof (cases n)
  case (Dir name es)
  then show ?thesis by (simp add: scanned_targets_def)
next
  case (File name sz content)
  show ?thesis
  proof (cases "tracked cfg env root d n")
    case False
    with File show ?thesis
      by (auto simp: Let_def tracked_def scanned_targets_def split: option.splits)
  next
    case True
    with File show ?thesis
      by (auto simp: Let_def tracked_def scanned_targets_def dom_scan_references
          split: option.splits)
  qed
qed

lemma scan_steps_Nil [simp]: "scan_steps cfg env root [] st = st"
  by (simp add: scan_steps_def)

lemma scan_steps_Cons [simp]:
  "scan_steps cfg env root ((d, n) # xs) st = scan_steps cfg env root xs (scan_file cfg env root d n st)"
  by (simp add: scan_steps_def)

lemma scan_steps_append:
  "scan_steps cfg env root (xs @ ys) st = scan_steps cfg env root ys (scan_steps cfg env root xs st)"
  by (simp add: scan_steps_def)

lemma scan_steps_root_dir [simp]: "root_dir (scan_steps cfg env root xs st) = root_dir st"
  by (induction xs arbitrary: st) auto

lemma scan_steps_all_files:
  "set (all_files (scan_steps cfg env root xs st)) =
     set (all_files st) \<union> {path_join d (node_name n) | d n. (d, n) \<in> set xs \<and> tracked cfg env root d n}"
proof (induction xs arbitrary: st)
  case Nil
  then show ?case by simp
next
  case (Cons x xs)
  obtain d n where x: "x = (d, n)" by (cases x)
  show ?case
    unfolding x scan_steps_Cons Cons scan_file_all_files by auto
qed

lemma scan_steps_distinct:
  "distinct (all_files st) \<Longrightarrow> distinct (all_files (scan_steps cfg env root xs st))"
proof (induction xs arbitrary: st)
  case Nil
  then show ?case by simp
next
  case (Cons x xs)
  obtain d n where x: "x = (d, n)" by (cases x)
  show ?case
    unfolding x scan_steps_Cons by (rule Cons.IH) (rule scan_file_distinct [OF Cons.prems])
qed

lemma scan_steps_all_files_mono:
  "set (all_files st) \<subseteq> set (all_files (scan_steps cfg env root xs st))"
  by (auto simp: scan_steps_all_files)

lemma scan_steps_dom:
  "dom (file_references st) \<subseteq> set (all_files st) \<Longrightarrow>
     dom (file_references (scan_steps cfg env root xs st)) \<subseteq> set (all_files (scan_steps cfg env root xs st))"
proof (induction xs arbitrary: st)
  case Nil
  then show ?case by simp
next
  case (Cons x xs)
  obtain d n where x: "x = (d, n)" by (cases x)
  have "dom (file_references (scan_file cfg env root d n st)) \<subseteq> set (all_files (scan_file cfg env root d n st))"
    using Cons.prems by (auto simp: scan_file_dom scan_file_all_files)
  then show ?case
    unfolding x scan_steps_Cons by (rule Cons.IH)
qed

lemma scan_file_referrers_mono: "referrers st k \<subseteq> referrers (scan_file cfg env root d n st) k"
  by (simp add: scan_file_referrers)

lemma scan_steps_referrers_mono: "referrers st k \<subseteq> referrers (scan_steps cfg env root xs st) k"
proof (induction xs arbitrary: st)
  case Nil
  then show ?case by simp
next
  case (Cons x xs)
  obtain d n where x: "x = (d, n)" by (cases x)
  show ?case
    unfolding x scan_steps_Cons
    using scan_file_referrers_mono [of st k cfg env root d n] Cons [of "scan_file cfg env root d n st"]
    by blast
qed

lemma scanned_targets_tracked:
  "k \<in> scanned_targets cfg env root d n \<Longrightarrow> tracked cfg env root d n"
  by (auto simp: scanned_targets_def split: node.splits option.splits if_splits)

lemma scan_steps_referrers_tracked:
  "f \<in> referrers (scan_steps cfg env root xs st) k \<Longrightarrow>
     f \<in> referrers st k \<or> (\<exists>d n. (d, n) \<in> set xs \<and> tracked cfg env root d n \<and> f = path_join d (node_name n))"
proof (induction xs arbitrary: st)
  case Nil
  then show ?case by simp
next
  case (Cons x xs)
  obtain d n where x: "x = (d, n)" by (cases x)
  from Cons.prems have "f \<in> referrers (scan_steps cfg env root xs (scan_file cfg env root d n st)) k"
    by (simp add: x)
  from Cons.IH [OF this] show ?case
  proof
    assume "f \<in> referrers (scan_file cfg env root d n st) k"
    then have "f \<in> referrers st k \<or> (tracked cfg env root d n \<and> f = path_join d (node_name n))"
      by (auto simp: scan_file_referrers dest: scanned_targets_tracked split: if_splits)
    then show ?thesis
      using x by auto
  next
    assume "\<exists>d n. (d, n) \<in> set xs \<and> tracked cfg env root d n \<and> f = path_join d (node_name n)"
    then show ?thesis by auto
  qed
qed

lemma scan_steps_self_edge:
  assumes "(d, n) \<in> set xs" "path_join d (node_name n) \<in> scanned_targets cfg env root d n"
  shows "path_join d (node_name n) \<in> referrers (scan_steps cfg env root xs st) (path_join d (node_name n))"
proof -
  let ?f = "path_join d (node_name n)"
  from assms(1) obtain ys zs where xs: "xs = ys @ (d, n) # zs"
    by (auto simp: in_set_conv_decomp)
  let ?st = "scan_steps cfg env root ys st"
  have "tracked cfg env root d n"
    using assms(2) by (rule scanned_targets_tracked)
  then have "?f \<in> set (all_files (scan_file cfg env root d n ?st))"
    by (simp add: scan_file_all_files)
  with assms(2) have "?f \<in> referrers (scan_file cfg env root d n ?st) ?f"
    by (simp add: scan_file_referrers)
  then show ?thesis
    using scan_steps_referrers_mono [of "scan_file cfg env root d n ?st" ?f cfg env root zs]
    by (auto simp: xs scan_steps_append)
qed

lemma scan_dir_steps:
  "scan_dir cfg env root walk_dir entries st = scan_steps cfg env root (walk cfg walk_dir entries) st"
  by (simp add: scan_dir_walk scan_steps_def)

lemma classify_file_fields:
  "orphaned (classify_file cfg env st root f d) = orphaned d"
  "unreferenced (classify_file cfg env st root f d) =
     unreferenced d @ (if dead_candidate cfg st f \<and> \<not> is_potentially_important f
                       then [relpath (cwd env) f root] else [])"
  "suspicious (classify_file cfg env st root f d) =
     suspicious d @ (if dead_candidate cfg st f \<and> is_potentially_important f
                     then [relpath (cwd env) f root] else [])"
  by (auto simp: classify_file_def dead_candidate_def Let_def)

lemma fold_classify_orphaned:
  "orphaned (fold (classify_file cfg env st root) xs d) = orphaned d"
  by (induction xs arbitrary: d) (simp_all add: classify_file_fields)

lemma fold_classify_unreferenced:
  "unreferenced (fold (classify_file cfg env st root) xs d) =
     unreferenced d @ map (\<lambda>f. relpath (cwd env) f root)
       (filter (\<lambda>f. dead_candidate cfg st f \<and> \<not> is_potentially_important f) xs)"
  by (induction xs arbitrary: d) (simp_all add: classify_file_fields)

lemma fold_classify_suspicious:
  "suspicious (fold (classify_file cfg env st root) xs d) =
     suspicious d @ map (\<lambda>f. relpath (cwd env) f root)
       (filter (\<lambda>f. dead_candidate cfg st f \<and> is_potentially_important f) xs)"
  by (induction xs arbitrary: d) (simp_all add: classify_file_fields)

lemma fold_count_dir:
  "fold count_dir xs c dp = c dp + length (filter (\<lambda>g. dirname g = dp) xs)"
  by (induction xs arbitrary: c) (auto simp: count_dir_def Let_def)

lemma dir_file_count_length:
  "dir_file_count xs dp = length (filter (\<lambda>g. dirname g = dp) xs)"
  by (simp add: dir_file_count_def fold_count_dir)

lemma dir_file_count_card:
  "distinct xs \<Longrightarrow> dir_file_count xs dp = card {g \<in> set xs. dirname g = dp}"
  by (simp add: dir_file_count_length distinct_length_filter Int_def conj_commute)

lemma orphan_file_suspicious [simp]:
  "suspicious (orphan_file env cnt root f d) = suspicious d"
  by (simp add: orphan_file_def Let_def)

lemma fold_orphan_suspicious:
  "suspicious (fold (orphan_file env cnt root) xs d) = suspicious d"
  by (induction xs arbitrary: d) simp_all

lemma fold_orphan_sets:
  assumes "distinct (unreferenced d)"
  shows "distinct (unreferenced (fold (orphan_file env cnt root) xs d))
    \<and> set (unreferenced (fold (orphan_file env cnt root) xs d)) =
        set (unreferenced d)
        - (\<lambda>f. relpath (cwd env) f root) ` {f \<in> set xs. cnt (dirname f) = 1 \<and> \<not> is_potentially_important f}
    \<and> set (orphaned (fold (orphan_file env cnt root) xs d)) =
        set (orphaned d)
        \<union> (set (unreferenced d)
           \<inter> (\<lambda>f. relpath (cwd env) f root) ` {f \<in> set xs. cnt (dirname f) = 1 \<and> \<not> is_potentially_important f})"
  using assms
proof (induction xs arbitrary: d)
  case Nil
  then show ?case by simp
next
  case (Cons f xs)
  let ?d = "orphan_file env cnt root f d"
  let ?move = "cnt (dirname f) = 1 \<and> relpath (cwd env) f root \<in> set (unreferenced d)
               \<and> \<not> is_potentially_important f"
  have dist: "distinct (unreferenced ?d)"
    using Cons.prems by (simp add: orphan_file_def Let_def)
  have unref: "set (unreferenced ?d) =
      (if ?move then set (unreferenced d) - {relpath (cwd env) f root} else set (unreferenced d))"
    using Cons.prems by (simp add: orphan_file_def Let_def)
  have orph: "set (orphaned ?d) =
      (if ?move then insert (relpath (cwd env) f root) (set (orphaned d)) else set (orphaned d))"
    by (simp add: orphan_file_def Let_def)
  note IH = Cons.IH [OF dist]
  have 1: "distinct (unreferenced (fold (orphan_file env cnt root) (f # xs) d))"
    using IH by simp
  have 2: "set (unreferenced (fold (orphan_file env cnt root) (f # xs) d)) =
        set (unreferenced d)
        - (\<lambda>f. relpath (cwd env) f root) ` {g \<in> set (f # xs). cnt (dirname g) = 1 \<and> \<not> is_potentially_important g}"
    using IH unref by (simp only: fold_Cons comp_def) (auto split: if_splits)
  have 3: "set (orphaned (fold (orphan_file env cnt root) (f # xs) d)) =
        set (orphaned d)
        \<union> (set (unreferenced d)
           \<inter> (\<lambda>f. relpath (cwd env) f root) ` {g \<in> set (f # xs). cnt (dirname g) = 1 \<and> \<not> is_potentially_important g})"
    using IH unref orph by (simp only: fold_Cons comp_def) (auto split: if_splits)
  from 1 2 3 show ?case by blast
qed

lemma fold_orphan_distinct:
  assumes "distinct (unreferenced d)" "distinct (orphaned d)"
    "set (orphaned d) \<inter> set (unreferenced d) = {}"
  shows "distinct (orphaned (fold (orphan_file env cnt root) xs d))"
  using assms
proof (induction xs arbitrary: d)
  case Nil
  then show ?case by simp
next
  case (Cons f xs)
  let ?d = "orphan_file env cnt root f d"
  have "distinct (unreferenced ?d)" "distinct (orphaned ?d)"
    "set (orphaned ?d) \<inter> set (unreferenced ?d) = {}"
    using Cons.prems by (auto simp: orphan_file_def Let_def)
  from Cons.IH [OF this] show ?case by simp
qed

lemma find_dead_files_sets:
  assumes ne: "all_files st \<noteq> []" and root: "root_dir st = Some root"
    and nonempty: "[] \<notin> set (all_files st)" and dist: "distinct (all_files st)"
    and inj: "inj_on (\<lambda>f. relpath (cwd env) f root) (set (all_files st))"
  shows "\<exists>d. find_dead_files cfg env st = Inr d
    \<and> set (suspicious d) = (\<lambda>f. relpath (cwd env) f root) `
          {f \<in> set (all_files st). dead_candidate cfg st f \<and> is_potentially_important f}
    \<and> set (orphaned d) = (\<lambda>f. relpath (cwd env) f root) `
          {f \<in> set (all_files st). dead_candidate cfg st f \<and> \<not> is_potentially_important f
             \<and> card {g \<in> set (all_files st). dirname g = dirname f} = 1}
    \<and> set (unreferenced d) = (\<lambda>f. relpath (cwd env) f root) `
          {f \<in> set (all_files st). dead_candidate cfg st f \<and> \<not> is_potentially_important f
             \<and> card {g \<in> set (all_files st). dirname g = dirname f} \<noteq> 1}
    \<and> distinct (suspicious d) \<and> distinct (orphaned d) \<and> distinct (unreferenced d)"
proof -
  let ?rp = "\<lambda>f. relpath (cwd env) f root"
  let ?F = "all_files st"
  let ?U = "\<lambda>f. dead_candidate cfg st f \<and> \<not> is_potentially_important f"
  let ?S = "\<lambda>f. dead_candidate cfg st f \<and> is_potentially_important f"
  let ?cnt = "dir_file_count ?F"
  let ?d1 = "fold (classify_file cfg env st root) ?F empty_dead_files"
  let ?d = "fold (orphan_file env ?cnt root) ?F ?d1"
  let ?Q = "{f \<in> set ?F. ?cnt (dirname f) = 1 \<and> \<not> is_potentially_important f}"
  have res: "find_dead_files cfg env st = Inr ?d"
    using ne root nonempty by (simp add: find_dead_files_def Let_def)
  have u1: "unreferenced ?d1 = map ?rp (filter ?U ?F)"
    by (simp add: fold_classify_unreferenced empty_dead_files_def)
  have s1: "suspicious ?d1 = map ?rp (filter ?S ?F)"
    by (simp add: fold_classify_suspicious empty_dead_files_def)
  have o1: "orphaned ?d1 = []"
    by (simp add: fold_classify_orphaned empty_dead_files_def)
  have inj_sub: "inj_on ?rp (set (filter P ?F))" for P
    using inj by (rule inj_on_subset) auto
  have du: "distinct (unreferenced ?d1)"
    unfolding u1 using dist inj_sub by (simp add: distinct_map)
  have ds: "distinct (suspicious ?d1)"
    unfolding s1 using dist inj_sub by (simp add: distinct_map)
  note orph = fold_orphan_sets [OF du, of env ?cnt root ?F]
  have card: "?cnt dp = card {g \<in> set ?F. dirname g = dp}" for dp
    using dist by (rule dir_file_count_card)
  have susp: "set (suspicious ?d) = ?rp ` {f \<in> set ?F. ?S f}"
    by (simp add: fold_orphan_suspicious s1)
  have "set (orphaned ?d) = ?rp ` {f \<in> set ?F. ?U f} \<inter> ?rp ` ?Q"
    using orph by (simp add: o1 u1)
  also have "\<dots> = ?rp ` ({f \<in> set ?F. ?U f} \<inter> ?Q)"
    by (rule inj_on_image_Int [OF inj, symmetric]) auto
  also have "{f \<in> set ?F. ?U f} \<inter> ?Q = {f \<in> set ?F. ?U f \<and> card {g \<in> set ?F. dirname g = dirname f} = 1}"
    by (auto simp: card)
  finally have orphaned: "set (orphaned ?d) =
      ?rp ` {f \<in> set ?F. ?U f \<and> card {g \<in> set ?F. dirname g = dirname f} = 1}" .
  have "set (unreferenced ?d) = ?rp ` {f \<in> set ?F. ?U f} - ?rp ` ?Q"
    using orph by (simp add: u1)
  also have "\<dots> = ?rp ` ({f \<in> set ?F. ?U f} - ?Q)"
    by (rule inj_on_image_set_diff [OF inj, symmetric]) auto
  also have "{f \<in> set ?F. ?U f} - ?Q = {f \<in> set ?F. ?U f \<and> card {g \<in> set ?F. dirname g = dirname f} \<noteq> 1}"
    by (auto simp: card)
  finally have unref: "set (unreferenced ?d) =
      ?rp ` {f \<in> set ?F. ?U f \<and> card {g \<in> set ?F. dirname g = dirname f} \<noteq> 1}" .
  have d_s: "distinct (suspicious ?d)"
    using ds by (simp add: fold_orphan_suspicious)
  have d_u: "distinct (unreferenced ?d)"
    using orph by blast
  have d_o: "distinct (orphaned ?d)"
    by (rule fold_orphan_distinct [OF du]) (simp_all add: o1)
  show ?thesis
    using res susp orphaned unref d_s d_o d_u by (simp add: conj_assoc)
qed

text \<open>
  The third loop without any assumption on the state: a path leaves \<^verbatim>\<open>unreferenced\<close> only to
  enter \<^verbatim>\<open>orphaned\<close>, \<^verbatim>\<open>orphaned\<close> only grows, and it receives the path of every file that
  qualifies.
\<close>


lemma orphan_file_union:
  "set (unreferenced (orphan_file env cnt root f d)) \<union> set (orphaned (orphan_file env cnt root f d))
     = set (unreferenced d) \<union> set (orphaned d)"
proof (cases "cnt (dirname f) = 1 \<and> relpath (cwd env) f root \<in> set (unreferenced d)
               \<and> \<not> is_potentially_important f")
  case True
  have "set (remove1 x xs) \<union> {x} = set xs" if "x \<in> set xs" for x :: string and xs
    using that by (induction xs) auto
  with True show ?thesis
    by (auto simp: orphan_file_def Let_def dest: notin_set_remove1)
next
  case False
  then show ?thesis
    by (auto simp: orphan_file_def Let_def)
qed

lemma fold_orphan_union:
  "set (unreferenced (fold (orphan_file env cnt root) xs d))
     \<union> set (orphaned (fold (orphan_file env cnt root) xs d))
   = set (unreferenced d) \<union> set (orphaned d)"
  by (induction xs arbitrary: d) (simp_all add: orphan_file_union)

lemma orphan_file_orphaned_mono: "set (orphaned d) \<subseteq> set (orphaned (orphan_file env cnt root f d))"
  by (auto simp: orphan_file_def Let_def)

lemma fold_orphan_orphaned_mono:
  "set (orphaned d) \<subseteq> set (orphaned (fold (orphan_file env cnt root) xs d))"
proof (induction xs arbitrary: d)
  case Nil
  show ?case by simp
next
  case (Cons f xs)
  have "set (orphaned d) \<subseteq> set (orphaned (orphan_file env cnt root f d))"
    by (rule orphan_file_orphaned_mono)
  also have "\<dots> \<subseteq> set (orphaned (fold (orphan_file env cnt root) xs (orphan_file env cnt root f d)))"
    by (rule Cons.IH)
  finally show ?case by simp
qed

lemma fold_orphan_moved:
  assumes "f \<in> set xs" "cnt (dirname f) = 1" "\<not> is_potentially_important f"
    and "relpath (cwd env) f root \<in> set (unreferenced d) \<union> set (orphaned d)"
  shows "relpath (cwd env) f root \<in> set (orphaned (fold (orphan_file env cnt root) xs d))"
  using assms
proof (induction xs arbitrary: d)
  case Nil
  then show ?case by simp
next
  case (Cons g xs)
  let ?d = "orphan_file env cnt root g d"
  have keep: "relpath (cwd env) f root \<in> set (unreferenced ?d) \<union> set (orphaned ?d)"
    using Cons.prems(4) by (simp only: orphan_file_union)
  show ?case
  proof (cases "g = f")
    case True
    have "relpath (cwd env) f root \<in> set (orphaned ?d)"
      using Cons.prems(2,3,4) True by (auto simp: orphan_file_def Let_def)
    also have "set (orphaned ?d) \<subseteq> set (orphaned (fold (orphan_file env cnt root) xs ?d))"
      by (rule fold_orphan_orphaned_mono)
    finally show ?thesis by simp
  next
    case False
    with Cons.prems(1) have "f \<in> set xs" by simp
    from Cons.IH [OF this Cons.prems(2,3) keep] show ?thesis by simp
  qed
qed

lemma fold_orphan_orphaned_from:
  "set (orphaned (fold (orphan_file env cnt root) xs d))
     \<subseteq> set (orphaned d)
       \<union> (\<lambda>f. relpath (cwd env) f root) ` {f \<in> set xs. cnt (dirname f) = 1 \<and> \<not> is_potentially_important f}"
proof (induction xs arbitrary: d)
  case Nil
  show ?case by simp
next
  case (Cons g xs)
  let ?d = "orphan_file env cnt root g d"
  have step: "set (orphaned ?d) \<subseteq> set (orphaned d)
       \<union> (\<lambda>f. relpath (cwd env) f root) ` {f \<in> {g}. cnt (dirname f) = 1 \<and> \<not> is_potentially_important f}"
    by (auto simp: orphan_file_def Let_def)
  have "set (orphaned (fold (orphan_file env cnt root) (g # xs) d))
      \<subseteq> set (orphaned ?d)
       \<union> (\<lambda>f. relpath (cwd env) f root) ` {f \<in> set xs. cnt (dirname f) = 1 \<and> \<not> is_potentially_important f}"
    using Cons.IH [of ?d] by simp
  with step show ?case
    by auto
qed

lemma find_dead_files_general:
  assumes ne: "all_files st \<noteq> []" and root: "root_dir st = Some root"
    and nonempty: "[] \<notin> set (all_files st)"
  shows "\<exists>d. find_dead_files cfg env st = Inr d
    \<and> suspicious d = map (\<lambda>f. relpath (cwd env) f root)
          (filter (\<lambda>f. dead_candidate cfg st f \<and> is_potentially_important f) (all_files st))
    \<and> set (unreferenced d) \<union> set (orphaned d) = (\<lambda>f. relpath (cwd env) f root) `
          {f \<in> set (all_files st). dead_candidate cfg st f \<and> \<not> is_potentially_important f}
    \<and> (\<lambda>f. relpath (cwd env) f root) `
          {f \<in> set (all_files st). dead_candidate cfg st f \<and> \<not> is_potentially_important f
             \<and> dir_file_count (all_files st) (dirname f) = 1} \<subseteq> set (orphaned d)
    \<and> set (orphaned d) \<subseteq> (\<lambda>f. relpath (cwd env) f root) `
          {f \<in> set (all_files st). \<not> is_potentially_important f
             \<and> dir_file_count (all_files st) (dirname f) = 1}"
proof -
  let ?rp = "\<lambda>f. relpath (cwd env) f root"
  let ?F = "all_files st"
  let ?U = "\<lambda>f. dead_candidate cfg st f \<and> \<not> is_potentially_important f"
  let ?S = "\<lambda>f. dead_candidate cfg st f \<and> is_potentially_important f"
  let ?cnt = "dir_file_count ?F"
  let ?d1 = "fold (classify_file cfg env st root) ?F empty_dead_files"
  let ?d = "fold (orphan_file env ?cnt root) ?F ?d1"
  have res: "find_dead_files cfg env st = Inr ?d"
    using ne root nonempty by (simp add: find_dead_files_def Let_def)
  have u1: "unreferenced ?d1 = map ?rp (filter ?U ?F)"
    by (simp add: fold_classify_unreferenced empty_dead_files_def)
  have s1: "suspicious ?d1 = map ?rp (filter ?S ?F)"
    by (simp add: fold_classify_suspicious empty_dead_files_def)
  have o1: "orphaned ?d1 = []"
    by (simp add: fold_classify_orphaned empty_dead_files_def)
  have susp: "suspicious ?d = map ?rp (filter ?S ?F)"
    by (simp add: fold_orphan_suspicious s1)
  have union: "set (unreferenced ?d) \<union> set (orphaned ?d) = ?rp ` {f \<in> set ?F. ?U f}"
    by (simp add: fold_orphan_union u1 o1)
  have moved: "?rp ` {f \<in> set ?F. ?U f \<and> ?cnt (dirname f) = 1} \<subseteq> set (orphaned ?d)"
  proof
    fix p
    assume "p \<in> ?rp ` {f \<in> set ?F. ?U f \<and> ?cnt (dirname f) = 1}"
    then obtain f where f: "f \<in> set ?F" "?U f" "?cnt (dirname f) = 1" and p: "p = ?rp f"
      by blast
    from f(1,2) have "?rp f \<in> set (unreferenced ?d1) \<union> set (orphaned ?d1)"
      by (simp add: u1)
    moreover from f(2) have "\<not> is_potentially_important f"
      by simp
    ultimately have "?rp f \<in> set (orphaned ?d)"
      using f(1) f(3)
        fold_orphan_moved [where f = f and xs = ?F and cnt = ?cnt and env = env and root = root
          and d = ?d1]
      by blast
    then show "p \<in> set (orphaned ?d)"
      unfolding p .
  qed
  have origin: "set (orphaned ?d) \<subseteq> ?rp ` {f \<in> set ?F. \<not> is_potentially_important f \<and> ?cnt (dirname f) = 1}"
    using fold_orphan_orphaned_from [of env ?cnt root ?F ?d1] by (auto simp: o1)
  from res susp union moved origin show ?thesis
    by blast
qed

lemma abspath_canonical:
  assumes "wf_env env"
  shows "\<exists>k rs. (k = 1 \<or> k = 2) \<and> (\<forall>c \<in> set rs. proper_name c)
           \<and> abspath (cwd env) root_path = canon k rs"
proof -
  have "path_join (cwd env) root_path \<noteq> [] \<and> hd (path_join (cwd env) root_path) = sep"
    using assms by (auto simp: wf_env_def path_join_def)
  then show ?thesis
    unfolding abspath_def using normpath_abs by blast
qed

lemma scan_repository_steps:
  "scan_repository cfg env root_path st =
     scan_steps cfg env (abspath (cwd env) root_path)
       (walk cfg (abspath (cwd env) root_path) (scandir env (abspath (cwd env) root_path)))
       (st\<lparr>root_dir := Some (abspath (cwd env) root_path)\<rparr>)"
  by (simp add: scan_repository_def Let_def scan_dir_steps)

lemma scan_repository_root_dir [simp]:
  "root_dir (scan_repository cfg env root_path st) = Some (abspath (cwd env) root_path)"
  by (simp add: scan_repository_steps)

lemma scan_repository_all_files:
  "set (all_files (scan_repository cfg env root_path st)) =
     set (all_files st)
     \<union> {path_join d (node_name n) | d n.
          (d, n) \<in> set (walk cfg (abspath (cwd env) root_path) (scandir env (abspath (cwd env) root_path)))
          \<and> tracked cfg env (abspath (cwd env) root_path) d n}"
  by (simp add: scan_repository_steps scan_steps_all_files)

lemma scan_repository_distinct:
  "distinct (all_files st) \<Longrightarrow> distinct (all_files (scan_repository cfg env root_path st))"
  by (simp add: scan_repository_steps scan_steps_distinct)

lemma scan_repository_dom:
  "dom (file_references st) \<subseteq> set (all_files st) \<Longrightarrow>
     dom (file_references (scan_repository cfg env root_path st))
       \<subseteq> set (all_files (scan_repository cfg env root_path st))"
  unfolding scan_repository_steps by (rule scan_steps_dom) simp

text \<open>The shape of every path a scan from a fresh detector tracks.\<close>

lemma tracked_paths_shape:
  assumes wf: "wf_env env"
    and root: "abspath (cwd env) root_path = canon k rs" "k = 1 \<or> k = 2" "\<forall>c \<in> set rs. proper_name c"
    and f: "f \<in> set (all_files (scan_repository cfg env root_path init_detector))"
  shows "\<exists>cs. cs \<noteq> [] \<and> (\<forall>c \<in> set cs. proper_name c) \<and> f = canon k (rs @ cs)
           \<and> (\<forall>j. 0 < j \<and> j < length cs \<longrightarrow> \<not> should_ignore_file cfg (canon k (rs @ take j cs)))"
proof -
  let ?root = "abspath (cwd env) root_path"
  from f obtain d n where dn: "(d, n) \<in> set (walk cfg ?root (scandir env ?root))"
    and fd: "f = path_join d (node_name n)"
    by (auto simp: scan_repository_all_files init_detector_def)
  have k: "0 < k" using root(2) by auto
  from walk_props [OF scandir_wf [OF wf] root(3) k dn root(1)]
  obtain ds name sz content where ds: "d = canon k (rs @ ds)" "\<forall>c \<in> set ds. proper_name c"
    "n = File name sz content" "proper_name name"
    "\<forall>j. 0 < j \<and> j \<le> length ds \<longrightarrow> \<not> should_ignore_file cfg (canon k (rs @ take j ds))"
    by blast
  have all: "\<forall>c \<in> set (rs @ ds). proper_name c"
    using root(3) ds(2) by auto
  have "f = canon k ((rs @ ds) @ [name])"
    unfolding fd ds(1,3) using path_join_canon [OF all ds(4) k] by simp
  then have feq: "f = canon k (rs @ (ds @ [name]))"
    by simp
  have ign: "\<not> should_ignore_file cfg (canon k (rs @ take j (ds @ [name])))"
    if "0 < j" "j < length (ds @ [name])" for j
    using that ds(5) [rule_format, of j] by simp
  have "ds @ [name] \<noteq> [] \<and> (\<forall>c \<in> set (ds @ [name]). proper_name c) \<and> f = canon k (rs @ (ds @ [name]))
      \<and> (\<forall>j. 0 < j \<and> j < length (ds @ [name]) \<longrightarrow> \<not> should_ignore_file cfg (canon k (rs @ take j (ds @ [name]))))"
    using ds(2,4) feq ign by simp
  then show ?thesis
    by (intro exI)
qed

lemma relpath_inj_on_tracked:
  assumes wf: "wf_env env"
  shows "inj_on (\<lambda>f. relpath (cwd env) f (abspath (cwd env) root_path))
           (set (all_files (scan_repository cfg env root_path init_detector)))"
proof (rule inj_onI)
  let ?root = "abspath (cwd env) root_path"
  fix f g
  assume f: "f \<in> set (all_files (scan_repository cfg env root_path init_detector))"
    and g: "g \<in> set (all_files (scan_repository cfg env root_path init_detector))"
    and eq: "relpath (cwd env) f ?root = relpath (cwd env) g ?root"
  from abspath_canonical [OF wf] obtain k rs where root: "?root = canon k rs" "k = 1 \<or> k = 2"
    "\<forall>c \<in> set rs. proper_name c"
    by blast
  from tracked_paths_shape [OF wf root f] obtain cs where cs: "cs \<noteq> []" "\<forall>c \<in> set cs. proper_name c"
    "f = canon k (rs @ cs)"
    by blast
  from tracked_paths_shape [OF wf root g] obtain cs' where cs': "cs' \<noteq> []" "\<forall>c \<in> set cs'. proper_name c"
    "g = canon k (rs @ cs')"
    by blast
  have "relpath (cwd env) f ?root = join_sep cs"
    unfolding cs(3) root(1) by (rule relpath_canon [OF root(2) root(2) root(3) cs(2) cs(1)])
  moreover have "relpath (cwd env) g ?root = join_sep cs'"
    unfolding cs'(3) root(1) by (rule relpath_canon [OF root(2) root(2) root(3) cs'(2) cs'(1)])
  ultimately have "join_sep cs = join_sep cs'"
    using eq by simp
  then have "cs = cs'"
    by (rule join_sep_inject [OF cs(2) cs'(2)])
  then show "f = g"
    by (simp add: cs(3) cs'(3))
qed

lemma tracked_paths_nonempty:
  assumes "wf_env env"
  shows "[] \<notin> set (all_files (scan_repository cfg env root_path init_detector))"
proof
  assume f: "[] \<in> set (all_files (scan_repository cfg env root_path init_detector))"
  from abspath_canonical [OF assms] obtain k rs where root: "abspath (cwd env) root_path = canon k rs"
    "k = 1 \<or> k = 2" "\<forall>c \<in> set rs. proper_name c"
    by blast
  from tracked_paths_shape [OF assms root f] obtain cs where "[] = canon k (rs @ cs)"
    by blast
  moreover have "0 < k" using root(2) by auto
  ultimately show False
    using canon_nonempty [of k "rs @ cs"] by simp
qed

lemma path_join_nonempty: "a \<noteq> [] \<Longrightarrow> path_join a b \<noteq> []"
  by (auto simp: path_join_def)

lemma normpath_nonempty: "normpath p \<noteq> []"
  by (simp add: normpath_def Let_def)

lemma walk_dir_nonempty:
  "(d, n) \<in> set (walk cfg walk_dir es) \<Longrightarrow> walk_dir \<noteq> [] \<Longrightarrow> d \<noteq> []"
proof (induction cfg walk_dir es rule: walk.induct)
  case (1 cfg walk_dir entries)
  let ?dirs = "filter (\<lambda>d. is_dir d \<and> \<not> should_ignore_file cfg (path_join walk_dir (node_name d))) entries"
  from "1.prems"(1) consider
      (at_top) "d = walk_dir"
    | (below) dd where "dd \<in> set ?dirs"
        "(d, n) \<in> set (case dd of Dir name es \<Rightarrow> walk cfg (path_join walk_dir name) es | File _ _ _ \<Rightarrow> [])"
    by (subst (asm) walk.simps) auto
  then show ?case
  proof cases
    case at_top
    with "1.prems"(2) show ?thesis by simp
  next
    case below
    then obtain name es' where dd: "dd = Dir name es'"
      by (cases dd) auto
    with below have inner: "(d, n) \<in> set (walk cfg (path_join walk_dir name) es')"
      by simp
    show ?thesis
      by (rule "1.IH" [OF below(1) dd inner]) (rule path_join_nonempty [OF "1.prems"(2)])
  qed
qed

lemma scan_no_empty_path:
  assumes "[] \<notin> set (all_files st)"
  shows "[] \<notin> set (all_files (scan_repository cfg env root_path st))"
proof
  let ?root = "abspath (cwd env) root_path"
  assume "[] \<in> set (all_files (scan_repository cfg env root_path st))"
  with assms obtain d n where dn: "(d, n) \<in> set (walk cfg ?root (scandir env ?root))"
    and e: "[] = path_join d (node_name n)"
    by (auto simp: scan_repository_all_files)
  have "?root \<noteq> []"
    by (simp add: abspath_def normpath_nonempty)
  from walk_dir_nonempty [OF dn this] have "path_join d (node_name n) \<noteq> []"
    by (rule path_join_nonempty)
  with e show False by simp
qed

lemma find_dead_files_Inr_nonempty: "find_dead_files cfg env st = Inr d \<Longrightarrow> all_files st \<noteq> []"
  by (auto simp: find_dead_files_def)

lemma scanned_distinct: "distinct (all_files (scan_repository cfg env root_path init_detector))"
  by (rule scan_repository_distinct) (simp add: init_detector_def)

lemma scanned_dom:
  "dom (file_references (scan_repository cfg env root_path init_detector))
     \<subseteq> set (all_files (scan_repository cfg env root_path init_detector))"
  by (rule scan_repository_dom) (simp add: init_detector_def)

lemma scanned_classification:
  assumes wf: "wf_env env"
    and res: "find_dead_files cfg env (scan_repository cfg env root_path init_detector) = Inr d"
  shows "set (suspicious d) = (\<lambda>f. relpath (cwd env) f (abspath (cwd env) root_path)) `
          {f \<in> set (all_files (scan_repository cfg env root_path init_detector)).
             dead_candidate cfg (scan_repository cfg env root_path init_detector) f
             \<and> is_potentially_important f}"
    and "set (orphaned d) = (\<lambda>f. relpath (cwd env) f (abspath (cwd env) root_path)) `
          {f \<in> set (all_files (scan_repository cfg env root_path init_detector)).
             dead_candidate cfg (scan_repository cfg env root_path init_detector) f
             \<and> \<not> is_potentially_important f
             \<and> card {g \<in> set (all_files (scan_repository cfg env root_path init_detector)).
                       dirname g = dirname f} = 1}"
    and "set (unreferenced d) = (\<lambda>f. relpath (cwd env) f (abspath (cwd env) root_path)) `
          {f \<in> set (all_files (scan_repository cfg env root_path init_detector)).
             dead_candidate cfg (scan_repository cfg env root_path init_detector) f
             \<and> \<not> is_potentially_important f
             \<and> card {g \<in> set (all_files (scan_repository cfg env root_path init_detector)).
                       dirname g = dirname f} \<noteq> 1}"
    and "distinct (suspicious d)" "distinct (orphaned d)" "distinct (unreferenced d)"
proof -
  let ?st = "scan_repository cfg env root_path init_detector"
  have ne: "all_files ?st \<noteq> []"
    using res by (rule find_dead_files_Inr_nonempty)
  note sets = find_dead_files_sets [OF ne scan_repository_root_dir tracked_paths_nonempty [OF wf]
      scanned_distinct relpath_inj_on_tracked [OF wf], where cfg = cfg]
  from sets res show "set (suspicious d) = (\<lambda>f. relpath (cwd env) f (abspath (cwd env) root_path)) `
          {f \<in> set (all_files ?st). dead_candidate cfg ?st f \<and> is_potentially_important f}"
    by auto
  from sets res show "set (orphaned d) = (\<lambda>f. relpath (cwd env) f (abspath (cwd env) root_path)) `
          {f \<in> set (all_files ?st). dead_candidate cfg ?st f \<and> \<not> is_potentially_important f
             \<and> card {g \<in> set (all_files ?st). dirname g = dirname f} = 1}"
    by auto
  from sets res show "set (unreferenced d) = (\<lambda>f. relpath (cwd env) f (abspath (cwd env) root_path)) `
          {f \<in> set (all_files ?st). dead_candidate cfg ?st f \<and> \<not> is_potentially_important f
             \<and> card {g \<in> set (all_files ?st). dirname g = dirname f} \<noteq> 1}"
    by auto
  from sets res show "distinct (suspicious d)" "distinct (orphaned d)" "distinct (unreferenced d)"
    by auto
qed

lemma scanned_membership:
  assumes wf: "wf_env env"
    and res: "find_dead_files cfg env (scan_repository cfg env root_path init_detector) = Inr d"
    and f: "f \<in> set (all_files (scan_repository cfg env root_path init_detector))"
  shows "relpath (cwd env) f (abspath (cwd env) root_path) \<in> set (suspicious d) \<longleftrightarrow>
           dead_candidate cfg (scan_repository cfg env root_path init_detector) f
           \<and> is_potentially_important f"
    and "relpath (cwd env) f (abspath (cwd env) root_path) \<in> set (orphaned d) \<longleftrightarrow>
           dead_candidate cfg (scan_repository cfg env root_path init_detector) f
           \<and> \<not> is_potentially_important f
           \<and> card {g \<in> set (all_files (scan_repository cfg env root_path init_detector)).
                     dirname g = dirname f} = 1"
    and "relpath (cwd env) f (abspath (cwd env) root_path) \<in> set (unreferenced d) \<longleftrightarrow>
           dead_candidate cfg (scan_repository cfg env root_path init_detector) f
           \<and> \<not> is_potentially_important f
           \<and> card {g \<in> set (all_files (scan_repository cfg env root_path init_detector)).
                     dirname g = dirname f} \<noteq> 1"
proof -
  let ?st = "scan_repository cfg env root_path init_detector"
  let ?rp = "\<lambda>f. relpath (cwd env) f (abspath (cwd env) root_path)"
  note inj = relpath_inj_on_tracked [OF wf, of root_path cfg]
  note sets = scanned_classification [OF wf res]
  have mem: "?rp f \<in> ?rp ` {g \<in> set (all_files ?st). P g} \<longleftrightarrow> P f" for P
    using inj_on_image_mem_iff [OF inj f, of "{g \<in> set (all_files ?st). P g}"] f by auto
  show "?rp f \<in> set (suspicious d) \<longleftrightarrow> dead_candidate cfg ?st f \<and> is_potentially_important f"
    unfolding sets(1) by (rule mem)
  show "?rp f \<in> set (orphaned d) \<longleftrightarrow> dead_candidate cfg ?st f \<and> \<not> is_potentially_important f
      \<and> card {g \<in> set (all_files ?st). dirname g = dirname f} = 1"
    unfolding sets(2) by (rule mem)
  show "?rp f \<in> set (unreferenced d) \<longleftrightarrow> dead_candidate cfg ?st f \<and> \<not> is_potentially_important f
      \<and> card {g \<in> set (all_files ?st). dirname g = dirname f} \<noteq> 1"
    unfolding sets(3) by (rule mem)
qed

lemma scanned_lists_tracked:
  assumes wf: "wf_env env"
    and res: "find_dead_files cfg env (scan_repository cfg env root_path init_detector) = Inr d"
    and p: "p \<in> set (unreferenced d) \<union> set (orphaned d) \<union> set (suspicious d)"
  shows "\<exists>f \<in> set (all_files (scan_repository cfg env root_path init_detector)).
           p = relpath (cwd env) f (abspath (cwd env) root_path)"
  using p unfolding scanned_classification [OF wf res] by auto

section \<open>Lemmas: the two repositories\<close>

lemma scenario_wf: "wf_env scenario_env"
  by code_simp

lemma example_wf: "wf_env example_env"
  by code_simp

lemma scenario_classification:
  "find_dead_files default_config scenario_env
     (scan_repository default_config scenario_env ''.'' init_detector)
   = Inr \<lparr>unreferenced = [''docs/old_notes.txt'', ''docs/draft.txt''],
          orphaned = [''lib/legacy_helper.js''],
          suspicious = [''main.py'']\<rparr>"
  by code_simp

lemma example_classification:
  "find_dead_files default_config example_env
     (scan_repository default_config example_env ''/repo'' init_detector)
   = Inr \<lparr>unreferenced = [], orphaned = [''src/helpers/parse.py''],
          suspicious = [''src/main.py'']\<rparr>"
  by code_simp

lemma walk_paths_shape:
  assumes wf: "wf_env env"
    and root: "abspath (cwd env) root_path = canon k rs" "k = 1 \<or> k = 2" "\<forall>c \<in> set rs. proper_name c"
    and dn: "(d, n) \<in> set (walk cfg (abspath (cwd env) root_path)
                             (scandir env (abspath (cwd env) root_path)))"
  shows "\<exists>cs. cs \<noteq> [] \<and> (\<forall>c \<in> set cs. proper_name c)
           \<and> path_join d (node_name n) = canon k (rs @ cs)
           \<and> (\<forall>j. 0 < j \<and> j < length cs \<longrightarrow> \<not> should_ignore_file cfg (canon k (rs @ take j cs)))"
proof -
  have k: "0 < k" using root(2) by auto
  from walk_props [OF scandir_wf [OF wf] root(3) k dn root(1)]
  obtain ds name sz content where ds: "d = canon k (rs @ ds)" "\<forall>c \<in> set ds. proper_name c"
    "n = File name sz content" "proper_name name"
    "\<forall>j. 0 < j \<and> j \<le> length ds \<longrightarrow> \<not> should_ignore_file cfg (canon k (rs @ take j ds))"
    by blast
  have all: "\<forall>c \<in> set (rs @ ds). proper_name c"
    using root(3) ds(2) by auto
  have "path_join d (node_name n) = canon k ((rs @ ds) @ [name])"
    unfolding ds(1,3) using path_join_canon [OF all ds(4) k] by simp
  then have feq: "path_join d (node_name n) = canon k (rs @ (ds @ [name]))"
    by simp
  have ign: "\<not> should_ignore_file cfg (canon k (rs @ take j (ds @ [name])))"
    if "0 < j" "j < length (ds @ [name])" for j
    using that ds(5) [rule_format, of j] by simp
  have "ds @ [name] \<noteq> [] \<and> (\<forall>c \<in> set (ds @ [name]). proper_name c)
      \<and> path_join d (node_name n) = canon k (rs @ (ds @ [name]))
      \<and> (\<forall>j. 0 < j \<and> j < length (ds @ [name]) \<longrightarrow> \<not> should_ignore_file cfg (canon k (rs @ take j (ds @ [name]))))"
    using ds(2,4) feq ign by simp
  then show ?thesis
    by (intro exI)
qed

lemma walk_avoids_ignored:
  assumes wf: "wf_env env"
    and names: "\<forall>c \<in> set (ds @ cs). proper_name c" and ds: "ds \<noteq> []" and cs: "cs \<noteq> []"
    and ignored: "should_ignore_file cfg (foldl path_join (abspath (cwd env) root_path) ds)"
    and dn: "(d, n) \<in> set (walk cfg (abspath (cwd env) root_path)
                             (scandir env (abspath (cwd env) root_path)))"
  shows "path_join d (node_name n) \<noteq> foldl path_join (abspath (cwd env) root_path) (ds @ cs)"
proof
  assume eq: "path_join d (node_name n) = foldl path_join (abspath (cwd env) root_path) (ds @ cs)"
  from abspath_canonical [OF wf] obtain k rs where root: "abspath (cwd env) root_path = canon k rs"
    "k = 1 \<or> k = 2" "\<forall>c \<in> set rs. proper_name c"
    by blast
  have k: "0 < k" using root(2) by auto
  from walk_paths_shape [OF wf root dn] obtain cs' where cs': "cs' \<noteq> []" "\<forall>c \<in> set cs'. proper_name c"
    "path_join d (node_name n) = canon k (rs @ cs')"
    "\<forall>j. 0 < j \<and> j < length cs' \<longrightarrow> \<not> should_ignore_file cfg (canon k (rs @ take j cs'))"
    by blast
  have dpath: "foldl path_join (abspath (cwd env) root_path) ds = canon k (rs @ ds)"
    unfolding root(1) by (rule foldl_path_join_canon [OF root(3) _ k]) (use names in auto)
  have fpath: "foldl path_join (abspath (cwd env) root_path) (ds @ cs) = canon k (rs @ (ds @ cs))"
    unfolding root(1) by (rule foldl_path_join_canon [OF root(3) names k])
  have "canon k (rs @ cs') = canon k (rs @ (ds @ cs))"
    using eq cs'(3) fpath by simp
  then have "rs @ cs' = rs @ (ds @ cs)"
    by (rule canon_inject [rotated 2]) (use root(3) cs'(2) names in auto)
  then have c: "cs' = ds @ cs"
    by simp
  have "0 < length ds \<and> length ds < length cs'"
    using ds cs c by simp
  then have "\<not> should_ignore_file cfg (canon k (rs @ take (length ds) cs'))"
    using cs'(4) by blast
  then show False
    using ignored dpath c by simp
qed

lemma relpath_below_root:
  assumes wf: "wf_env env" and names: "\<forall>c \<in> set cs. proper_name c" and cs: "cs \<noteq> []"
    and g: "g \<in> set (all_files (scan_repository cfg env root_path init_detector))"
    and eq: "relpath (cwd env) g (abspath (cwd env) root_path)
             = relpath (cwd env) (foldl path_join (abspath (cwd env) root_path) cs) (abspath (cwd env) root_path)"
  shows "g = foldl path_join (abspath (cwd env) root_path) cs"
proof -
  from abspath_canonical [OF wf] obtain k rs where root: "abspath (cwd env) root_path = canon k rs"
    "k = 1 \<or> k = 2" "\<forall>c \<in> set rs. proper_name c"
    by blast
  have k: "0 < k" using root(2) by auto
  from tracked_paths_shape [OF wf root g] obtain cs' where cs': "cs' \<noteq> []" "\<forall>c \<in> set cs'. proper_name c"
    "g = canon k (rs @ cs')"
    by blast
  have fpath: "foldl path_join (abspath (cwd env) root_path) cs = canon k (rs @ cs)"
    unfolding root(1) by (rule foldl_path_join_canon [OF root(3) names k])
  have "relpath (cwd env) g (abspath (cwd env) root_path) = join_sep cs'"
    unfolding cs'(3) root(1) by (rule relpath_canon [OF root(2) root(2) root(3) cs'(2) cs'(1)])
  moreover have "relpath (cwd env) (foldl path_join (abspath (cwd env) root_path) cs)
      (abspath (cwd env) root_path) = join_sep cs"
    unfolding fpath unfolding root(1) by (rule relpath_canon [OF root(2) root(2) root(3) names cs])
  ultimately have "join_sep cs' = join_sep cs"
    using eq by simp
  then have "cs' = cs"
    by (rule join_sep_inject [OF cs'(2) names])
  then show ?thesis
    by (simp add: cs'(3) fpath)
qed
section \<open>The resolver\<close>

text \<open>
  Claim C6. For a reference without extension, the resolver returns, in this order: the
  join with the referrer's directory when it exists; the join with the root when it
  exists (both are kept); then, for each extension of the probe list \<^verbatim>\<open>.py .js .ts .java .cpp\<close>
  in turn, the reference with the extension appended, joined with the referrer's directory
  when that exists, else joined with the root when that exists. Every extension
  contributes, not only the first that succeeds.
\<close>

theorem resolve_reference_probing:
  assumes "path_suffix reference = []"
  shows "resolve_reference env root reference base_path =
     (if path_exists env (path_join (dirname base_path) reference)
      then [normpath (path_join (dirname base_path) reference)] else [])
     @ (if path_exists env (path_join root reference)
        then [normpath (path_join root reference)] else [])
     @ concat (map (\<lambda>ext.
          if path_exists env (path_join (dirname base_path) (reference @ ext))
          then [normpath (path_join (dirname base_path) (reference @ ext))]
          else if path_exists env (path_join root (reference @ ext))
          then [normpath (path_join root (reference @ ext))]
          else [])
        [''.py'', ''.js'', ''.ts'', ''.java'', ''.cpp''])"
  using assms
  by (simp add: resolve_reference_def probe_def probe_extensions_def Let_def)

theorem resolve_reference_probing_witness:
  "path_suffix ''./helpers/parse'' = []
   \<and> resolve_reference example_env ''/repo'' ''./helpers/parse'' ''/repo/src/main.py''
       = [''/repo/src/helpers/parse.py'']"
proof -
  have noext: "path_suffix ''./helpers/parse'' = []"
    by code_simp
  have "[normpath (path_join (dirname ''/repo/src/main.py'') (''./helpers/parse'' @ ''.py''))]
      = [''/repo/src/helpers/parse.py'']"
    by code_simp
  moreover have "path_exists example_env (path_join (dirname ''/repo/src/main.py'') (''./helpers/parse'' @ ''.py''))"
    by code_simp
  moreover have "\<not> path_exists example_env (path_join (dirname ''/repo/src/main.py'') ''./helpers/parse'')"
    "\<not> path_exists example_env (path_join ''/repo'' ''./helpers/parse'')"
    by code_simp+
  moreover have "\<forall>ext \<in> set [''.js'', ''.ts'', ''.java'', ''.cpp''].
      \<not> path_exists example_env (path_join (dirname ''/repo/src/main.py'') (''./helpers/parse'' @ ext))
      \<and> \<not> path_exists example_env (path_join ''/repo'' (''./helpers/parse'' @ ext))"
    by code_simp
  ultimately show ?thesis
    using noext resolve_reference_probing [OF noext, of example_env "''/repo''" "''/repo/src/main.py''"]
    by simp
qed

section \<open>The classifier before and after a scan\<close>

text \<open>
  Claim C9. The classifier raises \<^verbatim>\<open>ValueError\<close> whenever the tracked universe is empty, in
  particular on a detector that has not scanned anything; it never returns a default
  classification there. On every state with a non-empty universe, a root directory and no
  empty path it returns a classification, and that classification is the three-way one:
  \<^verbatim>\<open>suspicious\<close> lists, in order, the files that are not special, have no inbound edge and
  look like entry points; \<^verbatim>\<open>unreferenced\<close> and \<^verbatim>\<open>orphaned\<close> together hold exactly the other
  files that are not special and have no inbound edge; \<^verbatim>\<open>orphaned\<close> holds each of these that
  is counted alone in its directory, and only paths of files counted alone. Every scan
  sets the root directory and adds no empty path, so the state after a scan is such a
  state. After a scan by a fresh detector in a well-formed environment the three lists are
  given exactly, as sets of relative paths, and have no repetition.
\<close>

theorem find_dead_files_invalid_state:
  "(all_files st = [] \<longrightarrow>
      find_dead_files cfg env st
        = Inl (ValueError ''Repository not scanned yet. Call scan_repository() first.''))
   \<and> find_dead_files cfg env init_detector
        = Inl (ValueError ''Repository not scanned yet. Call scan_repository() first.'')
   \<and> (all_files st \<noteq> [] \<and> root_dir st = Some root \<and> [] \<notin> set (all_files st) \<longrightarrow>
        (\<exists>d. find_dead_files cfg env st = Inr d
           \<and> suspicious d = map (\<lambda>f. relpath (cwd env) f root)
                 (filter (\<lambda>f. dead_candidate cfg st f \<and> is_potentially_important f) (all_files st))
           \<and> set (unreferenced d) \<union> set (orphaned d) = (\<lambda>f. relpath (cwd env) f root) `
                 {f \<in> set (all_files st). dead_candidate cfg st f \<and> \<not> is_potentially_important f}
           \<and> (\<lambda>f. relpath (cwd env) f root) `
                 {f \<in> set (all_files st). dead_candidate cfg st f \<and> \<not> is_potentially_important f
                    \<and> dir_file_count (all_files st) (dirname f) = 1} \<subseteq> set (orphaned d)
           \<and> set (orphaned d) \<subseteq> (\<lambda>f. relpath (cwd env) f root) `
                 {f \<in> set (all_files st). \<not> is_potentially_important f
                    \<and> dir_file_count (all_files st) (dirname f) = 1}))
   \<and> root_dir (scan_repository cfg env root_path st) = Some (abspath (cwd env) root_path)
   \<and> ([] \<notin> set (all_files st) \<longrightarrow> [] \<notin> set (all_files (scan_repository cfg env root_path st)))
   \<and> (wf_env env \<and> all_files (scan_repository cfg env root_path init_detector) \<noteq> [] \<longrightarrow>
        (\<exists>d. find_dead_files cfg env (scan_repository cfg env root_path init_detector) = Inr d
           \<and> set (suspicious d) = (\<lambda>f. relpath (cwd env) f (abspath (cwd env) root_path)) `
                 {f \<in> set (all_files (scan_repository cfg env root_path init_detector)).
                    dead_candidate cfg (scan_repository cfg env root_path init_detector) f
                    \<and> is_potentially_important f}
           \<and> set (orphaned d) = (\<lambda>f. relpath (cwd env) f (abspath (cwd env) root_path)) `
                 {f \<in> set (all_files (scan_repository cfg env root_path init_detector)).
                    dead_candidate cfg (scan_repository cfg env root_path init_detector) f
                    \<and> \<not> is_potentially_important f
                    \<and> card {g \<in> set (all_files (scan_repository cfg env root_path init_detector)).
                              dirname g = dirname f} = 1}
           \<and> set (unreferenced d) = (\<lambda>f. relpath (cwd env) f (abspath (cwd env) root_path)) `
                 {f \<in> set (all_files (scan_repository cfg env root_path init_detector)).
                    dead_candidate cfg (scan_repository cfg env root_path init_detector) f
                    \<and> \<not> is_potentially_important f
                    \<and> card {g \<in> set (all_files (scan_repository cfg env root_path init_detector)).
                              dirname g = dirname f} \<noteq> 1}
           \<and> distinct (suspicious d) \<and> distinct (orphaned d) \<and> distinct (unreferenced d)))"
  (is "?empty \<and> ?fresh \<and> ?general \<and> ?root \<and> ?paths \<and> ?scanned")
proof -
  have 1: ?empty
    by (simp add: find_dead_files_def)
  have 2: ?fresh
    by (simp add: find_dead_files_def init_detector_def)
  have 3: ?general
  proof
    assume "all_files st \<noteq> [] \<and> root_dir st = Some root \<and> [] \<notin> set (all_files st)"
    then have "all_files st \<noteq> []" "root_dir st = Some root" "[] \<notin> set (all_files st)"
      by blast+
    then show "\<exists>d. find_dead_files cfg env st = Inr d
           \<and> suspicious d = map (\<lambda>f. relpath (cwd env) f root)
                 (filter (\<lambda>f. dead_candidate cfg st f \<and> is_potentially_important f) (all_files st))
           \<and> set (unreferenced d) \<union> set (orphaned d) = (\<lambda>f. relpath (cwd env) f root) `
                 {f \<in> set (all_files st). dead_candidate cfg st f \<and> \<not> is_potentially_important f}
           \<and> (\<lambda>f. relpath (cwd env) f root) `
                 {f \<in> set (all_files st). dead_candidate cfg st f \<and> \<not> is_potentially_important f
                    \<and> dir_file_count (all_files st) (dirname f) = 1} \<subseteq> set (orphaned d)
           \<and> set (orphaned d) \<subseteq> (\<lambda>f. relpath (cwd env) f root) `
                 {f \<in> set (all_files st). \<not> is_potentially_important f
                    \<and> dir_file_count (all_files st) (dirname f) = 1}"
      by (rule find_dead_files_general)
  qed
  have 4: ?root
    by (rule scan_repository_root_dir)
  have 5: ?paths
    using scan_no_empty_path [of st cfg env root_path] by blast
  have 6: ?scanned
  proof
    let ?st = "scan_repository cfg env root_path init_detector"
    assume "wf_env env \<and> all_files ?st \<noteq> []"
    then have wf: "wf_env env" and ne: "all_files ?st \<noteq> []"
      by blast+
    from find_dead_files_sets [OF ne scan_repository_root_dir tracked_paths_nonempty [OF wf]
      scanned_distinct relpath_inj_on_tracked [OF wf], where cfg = cfg]
    show "\<exists>d. find_dead_files cfg env ?st = Inr d
           \<and> set (suspicious d) = (\<lambda>f. relpath (cwd env) f (abspath (cwd env) root_path)) `
                 {f \<in> set (all_files ?st). dead_candidate cfg ?st f \<and> is_potentially_important f}
           \<and> set (orphaned d) = (\<lambda>f. relpath (cwd env) f (abspath (cwd env) root_path)) `
                 {f \<in> set (all_files ?st). dead_candidate cfg ?st f \<and> \<not> is_potentially_important f
                    \<and> card {g \<in> set (all_files ?st). dirname g = dirname f} = 1}
           \<and> set (unreferenced d) = (\<lambda>f. relpath (cwd env) f (abspath (cwd env) root_path)) `
                 {f \<in> set (all_files ?st). dead_candidate cfg ?st f \<and> \<not> is_potentially_important f
                    \<and> card {g \<in> set (all_files ?st). dirname g = dirname f} \<noteq> 1}
           \<and> distinct (suspicious d) \<and> distinct (orphaned d) \<and> distinct (unreferenced d)" .
  qed
  from 1 2 3 4 5 6 show ?thesis
    by (intro conjI)
qed

theorem find_dead_files_invalid_state_witness:
  "all_files init_detector = []
   \<and> find_dead_files default_config scenario_env init_detector
        = Inl (ValueError ''Repository not scanned yet. Call scan_repository() first.'')
   \<and> wf_env scenario_env
   \<and> all_files (scan_repository default_config scenario_env ''.'' init_detector) \<noteq> []
   \<and> root_dir (scan_repository default_config scenario_env ''.'' init_detector) = Some ''/proj''
   \<and> [] \<notin> set (all_files (scan_repository default_config scenario_env ''.'' init_detector))
   \<and> find_dead_files default_config scenario_env
          (scan_repository default_config scenario_env ''.'' init_detector)
        = Inr \<lparr>unreferenced = [''docs/old_notes.txt'', ''docs/draft.txt''],
               orphaned = [''lib/legacy_helper.js''],
               suspicious = [''main.py'']\<rparr>
   \<and> map (\<lambda>f. relpath (cwd scenario_env) f ''/proj'')
         (filter (\<lambda>f. dead_candidate default_config
                         (scan_repository default_config scenario_env ''.'' init_detector) f
                       \<and> is_potentially_important f)
            (all_files (scan_repository default_config scenario_env ''.'' init_detector)))
        = [''main.py'']
   \<and> (\<lambda>f. relpath (cwd scenario_env) f ''/proj'') `
         {f \<in> set (all_files (scan_repository default_config scenario_env ''.'' init_detector)).
            dead_candidate default_config
              (scan_repository default_config scenario_env ''.'' init_detector) f
            \<and> \<not> is_potentially_important f}
        = {''lib/legacy_helper.js'', ''docs/old_notes.txt'', ''docs/draft.txt''}"
proof -
  let ?st = "scan_repository default_config scenario_env ''.'' init_detector"
  let ?rp = "\<lambda>f. relpath (cwd scenario_env) f ''/proj''"
  have empty: "all_files init_detector = []"
    by (simp add: init_detector_def)
  have ne: "all_files ?st \<noteq> []"
    by code_simp
  have rd: "root_dir ?st = Some ''/proj''"
    by code_simp
  have np: "[] \<notin> set (all_files ?st)"
    by code_simp
  note err = find_dead_files_invalid_state
    [where st = init_detector and cfg = default_config and env = scenario_env,
     THEN conjunct2, THEN conjunct1]
  note general = find_dead_files_invalid_state
    [where st = ?st and cfg = default_config and env = scenario_env and root = "''/proj''",
     THEN conjunct2, THEN conjunct2, THEN conjunct1, THEN mp, OF conjI [OF ne conjI [OF rd np]]]
  from general obtain d where d: "find_dead_files default_config scenario_env ?st = Inr d"
    and susp: "suspicious d = map ?rp
         (filter (\<lambda>f. dead_candidate default_config ?st f \<and> is_potentially_important f) (all_files ?st))"
    and dead: "set (unreferenced d) \<union> set (orphaned d) = ?rp `
         {f \<in> set (all_files ?st). dead_candidate default_config ?st f \<and> \<not> is_potentially_important f}"
    by (elim exE conjE)
  from d scenario_classification
  have d_eq: "d = \<lparr>unreferenced = [''docs/old_notes.txt'', ''docs/draft.txt''],
               orphaned = [''lib/legacy_helper.js''],
               suspicious = [''main.py'']\<rparr>"
    by (simp only: sum.inject)
  have sd: "suspicious d = [''main.py'']"
    by (simp only: d_eq dead_files.simps)
  have ud: "set (unreferenced d) \<union> set (orphaned d)
      = {''lib/legacy_helper.js'', ''docs/old_notes.txt'', ''docs/draft.txt''}"
    by (simp only: d_eq dead_files.simps list.set Un_insert_left Un_insert_right Un_empty_left Un_empty_right)
  have s: "map ?rp (filter (\<lambda>f. dead_candidate default_config ?st f \<and> is_potentially_important f)
             (all_files ?st)) = [''main.py'']"
    by (rule trans [OF susp [symmetric] sd])
  have u: "?rp ` {f \<in> set (all_files ?st). dead_candidate default_config ?st f
                    \<and> \<not> is_potentially_important f}
        = {''lib/legacy_helper.js'', ''docs/old_notes.txt'', ''docs/draft.txt''}"
    by (rule trans [OF dead [symmetric] ud])
  from empty err scenario_wf ne rd np scenario_classification s u show ?thesis
    by (intro conjI)
qed

section \<open>The reference graph\<close>

text \<open>
  Claim C8. A scan keeps the keys of the reference graph inside the tracked universe, and
  the universe gains only files that the walk visits, that the ignore patterns do not
  match and whose size is within the bounds: a resolved path outside the repository or a
  filtered file never becomes a key.
\<close>

theorem scan_graph_keys_tracked:
  assumes "dom (file_references st) \<subseteq> set (all_files st)"
  shows "dom (file_references (scan_repository cfg env root_path st))
           \<subseteq> set (all_files (scan_repository cfg env root_path st))
    \<and> set (all_files (scan_repository cfg env root_path st))
        \<subseteq> set (all_files st)
          \<union> {path_join d name | d name sz content.
               (d, File name (Some sz) content)
                 \<in> set (walk cfg (abspath (cwd env) root_path)
                          (scandir env (abspath (cwd env) root_path)))
               \<and> \<not> should_ignore_file cfg
                     (relpath (cwd env) (path_join d name) (abspath (cwd env) root_path))
               \<and> min_file_size cfg \<le> int sz \<and> int sz \<le> max_file_size cfg}"
proof
  show "dom (file_references (scan_repository cfg env root_path st))
           \<subseteq> set (all_files (scan_repository cfg env root_path st))"
    using assms by (rule scan_repository_dom)
next
  show "set (all_files (scan_repository cfg env root_path st))
        \<subseteq> set (all_files st)
          \<union> {path_join d name | d name sz content.
               (d, File name (Some sz) content)
                 \<in> set (walk cfg (abspath (cwd env) root_path)
                          (scandir env (abspath (cwd env) root_path)))
               \<and> \<not> should_ignore_file cfg
                     (relpath (cwd env) (path_join d name) (abspath (cwd env) root_path))
               \<and> min_file_size cfg \<le> int sz \<and> int sz \<le> max_file_size cfg}"
  proof
    fix f
    assume "f \<in> set (all_files (scan_repository cfg env root_path st))"
    then consider "f \<in> set (all_files st)"
      | d n where "(d, n) \<in> set (walk cfg (abspath (cwd env) root_path)
                          (scandir env (abspath (cwd env) root_path)))"
          "tracked cfg env (abspath (cwd env) root_path) d n" "f = path_join d (node_name n)"
      by (auto simp: scan_repository_all_files)
    then show "f \<in> set (all_files st)
          \<union> {path_join d name | d name sz content.
               (d, File name (Some sz) content)
                 \<in> set (walk cfg (abspath (cwd env) root_path)
                          (scandir env (abspath (cwd env) root_path)))
               \<and> \<not> should_ignore_file cfg
                     (relpath (cwd env) (path_join d name) (abspath (cwd env) root_path))
               \<and> min_file_size cfg \<le> int sz \<and> int sz \<le> max_file_size cfg}"
    proof cases
      case 1
      then show ?thesis by simp
    next
      case 2
      from 2(2) obtain name sz content where n: "n = File name (Some sz) content"
        and ok: "\<not> should_ignore_file cfg
                     (relpath (cwd env) (path_join d name) (abspath (cwd env) root_path))"
          "min_file_size cfg \<le> int sz" "int sz \<le> max_file_size cfg"
        by (auto simp: tracked_def split: node.splits option.splits)
      with 2(1,3) show ?thesis
        by auto
    qed
  qed
qed

theorem scan_graph_keys_tracked_witness:
  "dom (file_references init_detector) \<subseteq> set (all_files init_detector)
   \<and> file_references (scan_repository default_config scenario_env ''.'' init_detector) ''/proj/utils.py''
       = Some {''/proj/main.py''}
   \<and> ''/proj/utils.py'' \<in> set (all_files (scan_repository default_config scenario_env ''.'' init_detector))"
proof -
  have init: "dom (file_references init_detector) \<subseteq> set (all_files init_detector)"
    by (simp add: init_detector_def)
  have key: "file_references (scan_repository default_config scenario_env ''.'' init_detector) ''/proj/utils.py''
       = Some {''/proj/main.py''}"
    by code_simp
  then have "''/proj/utils.py'' \<in> dom (file_references (scan_repository default_config scenario_env ''.'' init_detector))"
    by blast
  with init key show ?thesis
    using scan_graph_keys_tracked [OF init, of default_config scenario_env "''.''"]
    by blast
qed

section \<open>The classification\<close>

text \<open>
  The statements of this section are about the state \<open>st\<close> a fresh detector reaches by one
  scan, in an environment whose directory entries have proper names, and about the
  classification \<open>d\<close> that \<^const>\<open>find_dead_files\<close> returns for it. The lists of \<open>d\<close> hold
  paths relative to the root; on the tracked files the relative path is injective.
\<close>

text \<open>
  Claim C2. The classification partitions the tracked universe: the lists \<open>unreferenced\<close>,
  \<open>orphaned\<close> and \<open>suspicious\<close> are pairwise disjoint, none of them contains a file that is
  referenced and not special or a file with a special name, these two classes are disjoint
  as well, and the five classes together are the whole tracked universe. No list repeats
  a path.
\<close>

theorem classification_partition:
  assumes wf: "wf_env env"
    and st: "st = scan_repository cfg env root_path init_detector"
    and root: "root = abspath (cwd env) root_path"
    and res: "find_dead_files cfg env st = Inr d"
    and special: "special = {f \<in> set (all_files st). basename f \<in> set (special_files cfg)}"
    and live: "live = {f \<in> set (all_files st).
                 basename f \<notin> set (special_files cfg) \<and> f \<in> dom (file_references st)}"
  shows "set (unreferenced d) \<inter> set (orphaned d) = {}
    \<and> set (unreferenced d) \<inter> set (suspicious d) = {}
    \<and> set (orphaned d) \<inter> set (suspicious d) = {}
    \<and> (set (unreferenced d) \<union> set (orphaned d) \<union> set (suspicious d))
        \<inter> (\<lambda>f. relpath (cwd env) f root) ` (live \<union> special) = {}
    \<and> (\<lambda>f. relpath (cwd env) f root) ` live \<inter> (\<lambda>f. relpath (cwd env) f root) ` special = {}
    \<and> set (unreferenced d) \<union> set (orphaned d) \<union> set (suspicious d)
        \<union> (\<lambda>f. relpath (cwd env) f root) ` live \<union> (\<lambda>f. relpath (cwd env) f root) ` special
        = (\<lambda>f. relpath (cwd env) f root) ` set (all_files st)
    \<and> inj_on (\<lambda>f. relpath (cwd env) f root) (set (all_files st))
    \<and> distinct (unreferenced d) \<and> distinct (orphaned d) \<and> distinct (suspicious d)"
proof -
  let ?rp = "\<lambda>f. relpath (cwd env) f root"
  let ?F = "set (all_files st)"
  note res' = res [unfolded st]
  note inj = relpath_inj_on_tracked [OF wf, of root_path cfg, folded st root]
  note sets = scanned_classification [OF wf res', folded st root]
  define A where "A = {f \<in> ?F. dead_candidate cfg st f \<and> is_potentially_important f}"
  define B where "B = {f \<in> ?F. dead_candidate cfg st f \<and> \<not> is_potentially_important f
      \<and> card {g \<in> ?F. dirname g = dirname f} = 1}"
  define C where "C = {f \<in> ?F. dead_candidate cfg st f \<and> \<not> is_potentially_important f
      \<and> card {g \<in> ?F. dirname g = dirname f} \<noteq> 1}"
  have s: "set (suspicious d) = ?rp ` A" "set (orphaned d) = ?rp ` B" "set (unreferenced d) = ?rp ` C"
    unfolding A_def B_def C_def using sets(1-3) by simp_all
  have sub: "A \<subseteq> ?F" "B \<subseteq> ?F" "C \<subseteq> ?F" "live \<subseteq> ?F" "special \<subseteq> ?F"
    unfolding A_def B_def C_def live special by auto
  have disj: "A \<inter> B = {}" "A \<inter> C = {}" "B \<inter> C = {}" "(C \<union> B \<union> A) \<inter> (live \<union> special) = {}"
    "live \<inter> special = {}"
    unfolding A_def B_def C_def live special dead_candidate_def by auto
  have un: "C \<union> B \<union> A \<union> live \<union> special = ?F"
    unfolding A_def B_def C_def live special dead_candidate_def by auto
  have img_disj: "?rp ` X \<inter> ?rp ` Y = {}" if "X \<subseteq> ?F" "Y \<subseteq> ?F" "X \<inter> Y = {}" for X Y
    using inj_on_image_Int [OF inj that(1,2)] that(3) by simp
  have 1: "set (unreferenced d) \<inter> set (orphaned d) = {}"
    unfolding s using img_disj [OF sub(3) sub(2)] disj(3) by (simp add: Int_commute)
  have 2: "set (unreferenced d) \<inter> set (suspicious d) = {}"
    unfolding s using img_disj [OF sub(3) sub(1)] disj(2) by (simp add: Int_commute)
  have 3: "set (orphaned d) \<inter> set (suspicious d) = {}"
    unfolding s using img_disj [OF sub(2) sub(1)] disj(1) by (simp add: Int_commute)
  have "?rp ` (C \<union> B \<union> A) \<inter> ?rp ` (live \<union> special) = {}"
    by (rule img_disj) (use sub disj(4) in auto)
  then have 4: "(set (unreferenced d) \<union> set (orphaned d) \<union> set (suspicious d))
        \<inter> ?rp ` (live \<union> special) = {}"
    unfolding s by (simp add: image_Un)
  have 5: "?rp ` live \<inter> ?rp ` special = {}"
    by (rule img_disj [OF sub(4) sub(5) disj(5)])
  have "?rp ` (C \<union> B \<union> A \<union> live \<union> special) = ?rp ` ?F"
    by (simp only: un)
  then have 6: "set (unreferenced d) \<union> set (orphaned d) \<union> set (suspicious d)
        \<union> ?rp ` live \<union> ?rp ` special = ?rp ` ?F"
    unfolding s by (simp add: image_Un)
  from 1 2 3 4 5 6 inj sets(4-6) show ?thesis
    by blast
qed

theorem classification_partition_witness:
  "wf_env scenario_env
   \<and> find_dead_files default_config scenario_env
        (scan_repository default_config scenario_env ''.'' init_detector)
      = Inr \<lparr>unreferenced = [''docs/old_notes.txt'', ''docs/draft.txt''],
             orphaned = [''lib/legacy_helper.js''],
             suspicious = [''main.py'']\<rparr>
   \<and> inj_on (\<lambda>f. relpath (cwd scenario_env) f (abspath (cwd scenario_env) ''.''))
        (set (all_files (scan_repository default_config scenario_env ''.'' init_detector)))
   \<and> set [''docs/old_notes.txt'', ''docs/draft.txt''] \<union> set [''lib/legacy_helper.js'']
        \<union> set [''main.py'']
        \<union> (\<lambda>f. relpath (cwd scenario_env) f (abspath (cwd scenario_env) ''.'')) `
            {f \<in> set (all_files (scan_repository default_config scenario_env ''.'' init_detector)).
               basename f \<notin> set (special_files default_config)
               \<and> f \<in> dom (file_references (scan_repository default_config scenario_env ''.'' init_detector))}
        \<union> (\<lambda>f. relpath (cwd scenario_env) f (abspath (cwd scenario_env) ''.'')) `
            {f \<in> set (all_files (scan_repository default_config scenario_env ''.'' init_detector)).
               basename f \<in> set (special_files default_config)}
      = (\<lambda>f. relpath (cwd scenario_env) f (abspath (cwd scenario_env) ''.'')) `
          set (all_files (scan_repository default_config scenario_env ''.'' init_detector))"
  using scenario_wf scenario_classification
    classification_partition [OF scenario_wf refl refl scenario_classification refl refl]
  by simp

text \<open>
  Claim C3. A tracked file that is not special, has no inbound edge and whose basename
  matches the entry-point heuristic is in \<open>suspicious\<close> and neither in \<open>orphaned\<close> nor in
  \<open>unreferenced\<close>, whatever the number of tracked files in its directory. In the witness
  the file is the only tracked file of its directory.
\<close>

theorem entry_point_suspicious:
  assumes wf: "wf_env env"
    and st: "st = scan_repository cfg env root_path init_detector"
    and root: "root = abspath (cwd env) root_path"
    and res: "find_dead_files cfg env st = Inr d"
    and f: "f \<in> set (all_files st)"
    and not_special: "basename f \<notin> set (special_files cfg)"
    and no_edges: "f \<notin> dom (file_references st)"
    and entry: "is_potentially_important f"
  shows "relpath (cwd env) f root \<in> set (suspicious d)
    \<and> relpath (cwd env) f root \<notin> set (orphaned d)
    \<and> relpath (cwd env) f root \<notin> set (unreferenced d)"
  using scanned_membership [OF wf res [unfolded st] f [unfolded st]] not_special no_edges entry
  unfolding st root dead_candidate_def by blast

theorem entry_point_suspicious_witness:
  "wf_env example_env
   \<and> find_dead_files default_config example_env
        (scan_repository default_config example_env ''/repo'' init_detector)
      = Inr \<lparr>unreferenced = [], orphaned = [''src/helpers/parse.py''],
             suspicious = [''src/main.py'']\<rparr>
   \<and> ''/repo/src/main.py'' \<in> set (all_files (scan_repository default_config example_env ''/repo'' init_detector))
   \<and> basename ''/repo/src/main.py'' \<notin> set (special_files default_config)
   \<and> ''/repo/src/main.py'' \<notin> dom (file_references (scan_repository default_config example_env ''/repo'' init_detector))
   \<and> is_potentially_important ''/repo/src/main.py''
   \<and> dir_file_count (all_files (scan_repository default_config example_env ''/repo'' init_detector))
        (dirname ''/repo/src/main.py'') = 1
   \<and> relpath (cwd example_env) ''/repo/src/main.py'' (abspath (cwd example_env) ''/repo'')
        \<in> set [''src/main.py'']
   \<and> relpath (cwd example_env) ''/repo/src/main.py'' (abspath (cwd example_env) ''/repo'')
        \<notin> set [''src/helpers/parse.py'']"
proof -
  have f: "''/repo/src/main.py'' \<in> set (all_files (scan_repository default_config example_env ''/repo'' init_detector))"
    by code_simp
  have ns: "basename ''/repo/src/main.py'' \<notin> set (special_files default_config)"
    by code_simp
  have ne: "''/repo/src/main.py'' \<notin> dom (file_references (scan_repository default_config example_env ''/repo'' init_detector))"
    by code_simp
  have ep: "is_potentially_important ''/repo/src/main.py''"
    by code_simp
  have sole: "dir_file_count (all_files (scan_repository default_config example_env ''/repo'' init_detector))
        (dirname ''/repo/src/main.py'') = 1"
    by code_simp
  show ?thesis
    using example_wf example_classification f ns ne ep sole
      entry_point_suspicious [OF example_wf refl refl example_classification f ns ne ep]
    by simp
qed

text \<open>
  Claim C4. Every path in \<open>orphaned\<close> belongs to a tracked file whose directory holds
  exactly one tracked file. A tracked file is in \<open>orphaned\<close> exactly when it is not special,
  has no inbound edge, does not match the entry-point heuristic and is the only tracked
  file of its directory; with more files in the directory it stays in \<open>unreferenced\<close>.
\<close>

theorem orphaned_single_occupant:
  assumes wf: "wf_env env"
    and st: "st = scan_repository cfg env root_path init_detector"
    and root: "root = abspath (cwd env) root_path"
    and res: "find_dead_files cfg env st = Inr d"
  shows "(\<forall>p \<in> set (orphaned d). \<exists>f \<in> set (all_files st).
            p = relpath (cwd env) f root
            \<and> card {g \<in> set (all_files st). dirname g = dirname f} = 1)
    \<and> (\<forall>f \<in> set (all_files st).
          (relpath (cwd env) f root \<in> set (orphaned d) \<longleftrightarrow>
             basename f \<notin> set (special_files cfg) \<and> f \<notin> dom (file_references st)
             \<and> \<not> is_potentially_important f
             \<and> card {g \<in> set (all_files st). dirname g = dirname f} = 1)
          \<and> (relpath (cwd env) f root \<in> set (unreferenced d) \<longleftrightarrow>
             basename f \<notin> set (special_files cfg) \<and> f \<notin> dom (file_references st)
             \<and> \<not> is_potentially_important f
             \<and> card {g \<in> set (all_files st). dirname g = dirname f} \<noteq> 1))"
proof (intro conjI ballI)
  fix p
  assume "p \<in> set (orphaned d)"
  then show "\<exists>f \<in> set (all_files st). p = relpath (cwd env) f root
      \<and> card {g \<in> set (all_files st). dirname g = dirname f} = 1"
    unfolding scanned_classification(2) [OF wf res [unfolded st], folded st root] by auto
next
  fix f
  assume f: "f \<in> set (all_files st)"
  note mem = scanned_membership [OF wf res [unfolded st] f [unfolded st], folded st root]
  show "relpath (cwd env) f root \<in> set (orphaned d) \<longleftrightarrow>
      basename f \<notin> set (special_files cfg) \<and> f \<notin> dom (file_references st)
      \<and> \<not> is_potentially_important f
      \<and> card {g \<in> set (all_files st). dirname g = dirname f} = 1"
    unfolding mem(2) dead_candidate_def by blast
  show "relpath (cwd env) f root \<in> set (unreferenced d) \<longleftrightarrow>
      basename f \<notin> set (special_files cfg) \<and> f \<notin> dom (file_references st)
      \<and> \<not> is_potentially_important f
      \<and> card {g \<in> set (all_files st). dirname g = dirname f} \<noteq> 1"
    unfolding mem(3) dead_candidate_def by blast
qed

theorem orphaned_single_occupant_witness:
  "wf_env scenario_env
   \<and> find_dead_files default_config scenario_env
        (scan_repository default_config scenario_env ''.'' init_detector)
      = Inr \<lparr>unreferenced = [''docs/old_notes.txt'', ''docs/draft.txt''],
             orphaned = [''lib/legacy_helper.js''],
             suspicious = [''main.py'']\<rparr>
   \<and> ''/proj/lib/legacy_helper.js''
        \<in> set (all_files (scan_repository default_config scenario_env ''.'' init_detector))
   \<and> relpath (cwd scenario_env) ''/proj/lib/legacy_helper.js'' (abspath (cwd scenario_env) ''.'')
        = ''lib/legacy_helper.js''
   \<and> card {g \<in> set (all_files (scan_repository default_config scenario_env ''.'' init_detector)).
              dirname g = dirname ''/proj/lib/legacy_helper.js''} = 1"
proof -
  have f: "''/proj/lib/legacy_helper.js''
        \<in> set (all_files (scan_repository default_config scenario_env ''.'' init_detector))"
    by code_simp
  have rel: "relpath (cwd scenario_env) ''/proj/lib/legacy_helper.js'' (abspath (cwd scenario_env) ''.'')
        = ''lib/legacy_helper.js''"
    by code_simp
  from orphaned_single_occupant [OF scenario_wf refl refl scenario_classification] f
  have "relpath (cwd scenario_env) ''/proj/lib/legacy_helper.js'' (abspath (cwd scenario_env) ''.'')
          \<in> set (orphaned \<lparr>unreferenced = [''docs/old_notes.txt'', ''docs/draft.txt''],
             orphaned = [''lib/legacy_helper.js''], suspicious = [''main.py'']\<rparr>) \<longleftrightarrow>
        basename ''/proj/lib/legacy_helper.js'' \<notin> set (special_files default_config)
        \<and> ''/proj/lib/legacy_helper.js'' \<notin> dom (file_references (scan_repository default_config scenario_env ''.'' init_detector))
        \<and> \<not> is_potentially_important ''/proj/lib/legacy_helper.js''
        \<and> card {g \<in> set (all_files (scan_repository default_config scenario_env ''.'' init_detector)).
              dirname g = dirname ''/proj/lib/legacy_helper.js''} = 1"
    by blast
  then have "card {g \<in> set (all_files (scan_repository default_config scenario_env ''.'' init_detector)).
              dirname g = dirname ''/proj/lib/legacy_helper.js''} = 1"
    by (simp add: rel)
  with scenario_wf scenario_classification f rel show ?thesis
    by blast
qed

text \<open>
  Claim C7. A tracked file whose basename is one of the configured special names is in
  none of the three lists, with or without inbound edges. In the witness \<^verbatim>\<open>README.md\<close> has
  no inbound edge.
\<close>

theorem special_files_exempt:
  assumes wf: "wf_env env"
    and st: "st = scan_repository cfg env root_path init_detector"
    and root: "root = abspath (cwd env) root_path"
    and res: "find_dead_files cfg env st = Inr d"
    and f: "f \<in> set (all_files st)"
    and special: "basename f \<in> set (special_files cfg)"
  shows "relpath (cwd env) f root
           \<notin> set (unreferenced d) \<union> set (orphaned d) \<union> set (suspicious d)"
  using scanned_membership [OF wf res [unfolded st] f [unfolded st]] special
  unfolding st root dead_candidate_def by blast

theorem special_files_exempt_witness:
  "wf_env scenario_env
   \<and> find_dead_files default_config scenario_env
        (scan_repository default_config scenario_env ''.'' init_detector)
      = Inr \<lparr>unreferenced = [''docs/old_notes.txt'', ''docs/draft.txt''],
             orphaned = [''lib/legacy_helper.js''],
             suspicious = [''main.py'']\<rparr>
   \<and> ''/proj/README.md''
        \<in> set (all_files (scan_repository default_config scenario_env ''.'' init_detector))
   \<and> basename ''/proj/README.md'' \<in> set (special_files default_config)
   \<and> file_references (scan_repository default_config scenario_env ''.'' init_detector)
        ''/proj/README.md'' = None
   \<and> relpath (cwd scenario_env) ''/proj/README.md'' (abspath (cwd scenario_env) ''.'')
        \<notin> set [''docs/old_notes.txt'', ''docs/draft.txt''] \<union> set [''lib/legacy_helper.js'']
          \<union> set [''main.py'']"
proof -
  have f: "''/proj/README.md''
        \<in> set (all_files (scan_repository default_config scenario_env ''.'' init_detector))"
    by code_simp
  have sp: "basename ''/proj/README.md'' \<in> set (special_files default_config)"
    by code_simp
  have none: "file_references (scan_repository default_config scenario_env ''.'' init_detector)
        ''/proj/README.md'' = None"
    by code_simp
  show ?thesis
    using scenario_wf scenario_classification f sp none
      special_files_exempt [OF scenario_wf refl refl scenario_classification f sp]
    by simp
qed

section \<open>Ignored directories\<close>

text \<open>
  What the directory filter does prune. Let a directory below the scan root match an
  ignore pattern, as a glob or by substring, under the path by which the walker tests it:
  \<^verbatim>\<open>os.path.join\<close> of the root and the names leading to it, an absolute path. Then the walk is
  pruned there: no file at any depth below the directory is visited, none is in the
  tracked universe, none is a key or a referrer of the reference graph, and none is in a
  list of the classification.
\<close>

lemma ignored_directory_pruned:
  assumes wf: "wf_env env"
    and st: "st = scan_repository cfg env root_path init_detector"
    and root: "root = abspath (cwd env) root_path"
    and names: "\<forall>c \<in> set (ds @ cs). proper_name c" and ds: "ds \<noteq> []" and cs: "cs \<noteq> []"
    and ignored: "should_ignore_file cfg (foldl path_join root ds)"
    and f: "f = foldl path_join root (ds @ cs)"
  shows "(\<forall>(d, n) \<in> set (walk cfg root (scandir env root)). path_join d (node_name n) \<noteq> f)
    \<and> f \<notin> set (all_files st)
    \<and> f \<notin> dom (file_references st)
    \<and> (\<forall>k refs. file_references st k = Some refs \<longrightarrow> f \<notin> refs)
    \<and> (\<forall>d. find_dead_files cfg env st = Inr d \<longrightarrow>
          relpath (cwd env) f root
            \<notin> set (unreferenced d) \<union> set (orphaned d) \<union> set (suspicious d))"
proof -
  note avoid = walk_avoids_ignored [OF wf names ds cs ignored [unfolded root], folded root f]
  have walk: "\<forall>(d, n) \<in> set (walk cfg root (scandir env root)). path_join d (node_name n) \<noteq> f"
    using avoid by blast
  have files: "f \<notin> set (all_files st)"
    using avoid unfolding st root by (auto simp: scan_repository_all_files init_detector_def)
  have keys: "f \<notin> dom (file_references st)"
    using files scanned_dom [of cfg env root_path] unfolding st by blast
  have refs: "f \<notin> refs" if "file_references st k = Some refs" for k refs
  proof
    assume "f \<in> refs"
    with that have "f \<in> referrers st k"
      by (simp add: referrers_def)
    moreover have st_eq: "st = scan_steps cfg env root (walk cfg root (scandir env root))
        (init_detector\<lparr>root_dir := Some root\<rparr>)"
      unfolding st root by (rule scan_repository_steps)
    ultimately have "f \<in> referrers (scan_steps cfg env root (walk cfg root (scandir env root))
        (init_detector\<lparr>root_dir := Some root\<rparr>)) k"
      by simp
    from scan_steps_referrers_tracked [OF this]
    have "\<exists>d n. (d, n) \<in> set (walk cfg root (scandir env root)) \<and> f = path_join d (node_name n)"
      by (auto simp: referrers_def init_detector_def)
    then show False
      using avoid by blast
  qed
  have lists: "relpath (cwd env) f root \<notin> set (unreferenced d) \<union> set (orphaned d) \<union> set (suspicious d)"
    if res: "find_dead_files cfg env st = Inr d" for d
  proof
    assume "relpath (cwd env) f root \<in> set (unreferenced d) \<union> set (orphaned d) \<union> set (suspicious d)"
    from scanned_lists_tracked [OF wf res [unfolded st] this [unfolded root]]
    obtain g where g: "g \<in> set (all_files (scan_repository cfg env root_path init_detector))"
      and eq: "relpath (cwd env) f (abspath (cwd env) root_path)
               = relpath (cwd env) g (abspath (cwd env) root_path)"
      by blast
    have "g = foldl path_join (abspath (cwd env) root_path) (ds @ cs)"
      by (rule relpath_below_root [OF wf names _ g]) (use ds eq f root in auto)
    with g files show False
      unfolding st f root by simp
  qed
  from walk files keys refs lists show ?thesis
    by blast
qed

lemma ignored_directory_pruned_example:
  "wf_env scenario_env
   \<and> proper_name ''.env'' \<and> proper_name ''secrets.py''
   \<and> should_ignore_file default_config (foldl path_join (abspath (cwd scenario_env) ''.'') [''.env''])
   \<and> foldl path_join (abspath (cwd scenario_env) ''.'') ([''.env''] @ [''secrets.py''])
        = ''/proj/.env/secrets.py''
   \<and> ''/proj/.env/secrets.py''
        \<notin> set (all_files (scan_repository default_config scenario_env ''.'' init_detector))
   \<and> ''/proj/.env/secrets.py''
        \<notin> dom (file_references (scan_repository default_config scenario_env ''.'' init_detector))"
proof -
  have names: "\<forall>c \<in> set ([''.env''] @ [''secrets.py'']). proper_name c"
    by code_simp
  have ign: "should_ignore_file default_config (foldl path_join (abspath (cwd scenario_env) ''.'') [''.env''])"
    by code_simp
  have p: "foldl path_join (abspath (cwd scenario_env) ''.'') ([''.env''] @ [''secrets.py''])
        = ''/proj/.env/secrets.py''"
    by code_simp
  show ?thesis
    using scenario_wf names ign p
      ignored_directory_pruned [OF scenario_wf refl refl names _ _ ign p [symmetric]]
    by simp
qed

text \<open>
  Claim C5 says that a file under a directory that matches an ignore pattern is never
  tracked, and that matching directories are pruned before descent and never traversed.
  The walker tests a directory by \<^verbatim>\<open>os.path.join(root, d)\<close>, an absolute path without the
  trailing slash, and a file by its path relative to the scan root. No directory pattern
  of the default configuration matches \<^verbatim>\<open>/repo/.git\<close> or \<^verbatim>\<open>/repo/node_modules\<close>, nor the
  directories \<^verbatim>\<open>.git/objects\<close> and \<^verbatim>\<open>node_modules/pkg\<close>, whose relative paths match \<^verbatim>\<open>.git/*\<close>
  and \<^verbatim>\<open>node_modules/*\<close>: the walk enters all of them and visits their files, which only the
  test of each file drops. The file of the nested \<^verbatim>\<open>src/node_modules\<close> passes that test too:
  it is tracked and reported as orphaned. With the additional pattern \<^verbatim>\<open>tmp?\<close>, which the
  relative path of the directory \<^verbatim>\<open>tmp1\<close> matches as a glob, the walker's test of
  \<^verbatim>\<open>/repo/tmp1\<close> fails, the directory is entered, and \<^verbatim>\<open>tmp1/a.py\<close> is tracked and reported.
\<close>

theorem ignored_directory_traversed:
  "should_ignore_file default_config ''.git/objects''
   \<and> should_ignore_file default_config ''node_modules/pkg''
   \<and> \<not> should_ignore_file default_config ''/repo/.git''
   \<and> \<not> should_ignore_file default_config ''/repo/.git/objects''
   \<and> \<not> should_ignore_file default_config ''/repo/node_modules''
   \<and> \<not> should_ignore_file default_config ''/repo/node_modules/pkg''
   \<and> \<not> should_ignore_file default_config ''/repo/src/node_modules''
   \<and> map (\<lambda>(d, n). path_join d (node_name n))
         (walk default_config ''/repo'' (scandir pruning_env ''/repo''))
       = [''/repo/main.py'', ''/repo/.git/config'', ''/repo/.git/objects/pack'',
          ''/repo/node_modules/pkg/index.js'', ''/repo/src/node_modules/y.js'',
          ''/repo/tmp1/a.py'']
   \<and> all_files (scan_repository default_config pruning_env ''/repo'' init_detector)
       = [''/repo/main.py'', ''/repo/src/node_modules/y.js'', ''/repo/tmp1/a.py'']
   \<and> find_dead_files default_config pruning_env
         (scan_repository default_config pruning_env ''/repo'' init_detector)
       = Inr \<lparr>unreferenced = [], orphaned = [''src/node_modules/y.js'', ''tmp1/a.py''],
              suspicious = [''main.py'']\<rparr>
   \<and> should_ignore_file extended_config ''tmp1''
   \<and> \<not> should_ignore_file extended_config ''/repo/tmp1''
   \<and> all_files (scan_repository extended_config pruning_env ''/repo'' init_detector)
       = [''/repo/main.py'', ''/repo/src/node_modules/y.js'', ''/repo/tmp1/a.py'']
   \<and> find_dead_files extended_config pruning_env
         (scan_repository extended_config pruning_env ''/repo'' init_detector)
       = Inr \<lparr>unreferenced = [], orphaned = [''src/node_modules/y.js'', ''tmp1/a.py''],
              suspicious = [''main.py'']\<rparr>"
proof -
  have 1: "should_ignore_file default_config ''.git/objects''"
    by code_simp
  have 2: "should_ignore_file default_config ''node_modules/pkg''"
    by code_simp
  have 3: "\<not> should_ignore_file default_config ''/repo/.git''"
    by code_simp
  have 4: "\<not> should_ignore_file default_config ''/repo/.git/objects''"
    by code_simp
  have 5: "\<not> should_ignore_file default_config ''/repo/node_modules''"
    by code_simp
  have 6: "\<not> should_ignore_file default_config ''/repo/node_modules/pkg''"
    by code_simp
  have 7: "\<not> should_ignore_file default_config ''/repo/src/node_modules''"
    by code_simp
  have 8: "map (\<lambda>(d, n). path_join d (node_name n))
         (walk default_config ''/repo'' (scandir pruning_env ''/repo''))
       = [''/repo/main.py'', ''/repo/.git/config'', ''/repo/.git/objects/pack'',
          ''/repo/node_modules/pkg/index.js'', ''/repo/src/node_modules/y.js'',
          ''/repo/tmp1/a.py'']"
    by code_simp
  have 9: "all_files (scan_repository default_config pruning_env ''/repo'' init_detector)
       = [''/repo/main.py'', ''/repo/src/node_modules/y.js'', ''/repo/tmp1/a.py'']"
    by code_simp
  have 10: "find_dead_files default_config pruning_env
         (scan_repository default_config pruning_env ''/repo'' init_detector)
       = Inr \<lparr>unreferenced = [], orphaned = [''src/node_modules/y.js'', ''tmp1/a.py''],
              suspicious = [''main.py'']\<rparr>"
    by code_simp
  have 11: "should_ignore_file extended_config ''tmp1''"
    by code_simp
  have 12: "\<not> should_ignore_file extended_config ''/repo/tmp1''"
    by code_simp
  have 13: "all_files (scan_repository extended_config pruning_env ''/repo'' init_detector)
       = [''/repo/main.py'', ''/repo/src/node_modules/y.js'', ''/repo/tmp1/a.py'']"
    by code_simp
  have 14: "find_dead_files extended_config pruning_env
         (scan_repository extended_config pruning_env ''/repo'' init_detector)
       = Inr \<lparr>unreferenced = [], orphaned = [''src/node_modules/y.js'', ''tmp1/a.py''],
              suspicious = [''main.py'']\<rparr>"
    by code_simp
  from 1 2 3 4 5 6 7 8 9 10 11 12 13 14 show ?thesis
    by (intro conjI)
qed

section \<open>Edges of the reference graph\<close>

text \<open>
  Claim C10. A tracked scannable file whose text holds a reference that the resolver maps
  to the file's own path is added to the universe before its text is read, so it becomes
  a referrer of itself: it is a key of the graph, and no list of the classification
  contains it, even when nothing else refers to it. In the witness the file is the only
  tracked file of its directory and is not reported as orphaned.
\<close>

theorem self_reference_live:
  assumes wf: "wf_env env"
    and st: "st = scan_repository cfg env root_path init_detector"
    and root: "root = abspath (cwd env) root_path"
    and visit: "(dir, File name (Some sz) (Some content)) \<in> set (walk cfg root (scandir env root))"
    and f: "f = path_join dir name"
    and kept: "\<not> should_ignore_file cfg (relpath (cwd env) f root)"
    and size: "min_file_size cfg \<le> int sz" "int sz \<le> max_file_size cfg"
    and scannable: "is_scannable_file cfg (relpath (cwd env) f root)"
    and ref: "ref \<in> set (extract_references cfg content)"
    and self: "f \<in> set (resolve_reference env root ref f)"
  shows "f \<in> set (all_files st)
    \<and> (\<exists>refs. file_references st f = Some refs \<and> f \<in> refs)
    \<and> (\<forall>d. find_dead_files cfg env st = Inr d \<longrightarrow>
          relpath (cwd env) f root
            \<notin> set (unreferenced d) \<union> set (orphaned d) \<union> set (suspicious d))"
proof -
  let ?n = "File name (Some sz) (Some content)"
  have tr: "tracked cfg env root dir ?n"
    using kept size by (simp add: tracked_def f)
  have "f \<in> resolved_set cfg env root f content"
    using ref self by (auto simp: resolved_set_def)
  then have target: "path_join dir (node_name ?n) \<in> scanned_targets cfg env root dir ?n"
    using tr scannable by (simp add: scanned_targets_def f)
  have st_eq: "st = scan_steps cfg env root (walk cfg root (scandir env root))
        (init_detector\<lparr>root_dir := Some root\<rparr>)"
    unfolding st root by (rule scan_repository_steps)
  have edge: "f \<in> referrers st f"
    using scan_steps_self_edge [OF visit target] unfolding st_eq f by simp
  then have refs: "\<exists>refs. file_references st f = Some refs \<and> f \<in> refs"
    by (auto simp: referrers_def split: option.splits)
  then have key: "f \<in> dom (file_references st)"
    by blast
  have mem: "f \<in> set (all_files st)"
    using key scanned_dom [of cfg env root_path] unfolding st by blast
  have lists: "relpath (cwd env) f root \<notin> set (unreferenced d) \<union> set (orphaned d) \<union> set (suspicious d)"
    if res: "find_dead_files cfg env st = Inr d" for d
    using scanned_membership [OF wf res [unfolded st] mem [unfolded st]] key
    unfolding st root dead_candidate_def by blast
  from mem refs lists show ?thesis
    by blast
qed

theorem self_reference_live_witness:
  "wf_env scenario_env
   \<and> (''/proj/tool'', File ''self.py'' (Some 16) (Some self_text))
        \<in> set (walk default_config (abspath (cwd scenario_env) ''.'')
                 (scandir scenario_env (abspath (cwd scenario_env) ''.'')))
   \<and> ''/proj/tool/self.py'' = path_join ''/proj/tool'' ''self.py''
   \<and> \<not> should_ignore_file default_config
         (relpath (cwd scenario_env) ''/proj/tool/self.py'' (abspath (cwd scenario_env) ''.''))
   \<and> min_file_size default_config \<le> int 16 \<and> int 16 \<le> max_file_size default_config
   \<and> is_scannable_file default_config
         (relpath (cwd scenario_env) ''/proj/tool/self.py'' (abspath (cwd scenario_env) ''.''))
   \<and> ''self.py'' \<in> set (extract_references default_config self_text)
   \<and> ''/proj/tool/self.py''
        \<in> set (resolve_reference scenario_env (abspath (cwd scenario_env) ''.'') ''self.py''
                 ''/proj/tool/self.py'')
   \<and> (\<exists>refs. file_references (scan_repository default_config scenario_env ''.'' init_detector)
                 ''/proj/tool/self.py'' = Some refs \<and> ''/proj/tool/self.py'' \<in> refs)
   \<and> dir_file_count (all_files (scan_repository default_config scenario_env ''.'' init_detector))
        (dirname ''/proj/tool/self.py'') = 1
   \<and> relpath (cwd scenario_env) ''/proj/tool/self.py'' (abspath (cwd scenario_env) ''.'')
        \<notin> set [''docs/old_notes.txt'', ''docs/draft.txt''] \<union> set [''lib/legacy_helper.js'']
          \<union> set [''main.py'']"
proof -
  have visit: "(''/proj/tool'', File ''self.py'' (Some 16) (Some self_text))
        \<in> set (walk default_config (abspath (cwd scenario_env) ''.'')
                 (scandir scenario_env (abspath (cwd scenario_env) ''.'')))"
    by code_simp
  have f: "''/proj/tool/self.py'' = path_join ''/proj/tool'' ''self.py''"
    by code_simp
  have kept: "\<not> should_ignore_file default_config
         (relpath (cwd scenario_env) ''/proj/tool/self.py'' (abspath (cwd scenario_env) ''.''))"
    by code_simp
  have size: "min_file_size default_config \<le> int 16" "int 16 \<le> max_file_size default_config"
    by code_simp+
  have scannable: "is_scannable_file default_config
         (relpath (cwd scenario_env) ''/proj/tool/self.py'' (abspath (cwd scenario_env) ''.''))"
    by code_simp
  have ref: "''self.py'' \<in> set (extract_references default_config self_text)"
    by code_simp
  have self: "''/proj/tool/self.py''
        \<in> set (resolve_reference scenario_env (abspath (cwd scenario_env) ''.'') ''self.py''
                 ''/proj/tool/self.py'')"
    by code_simp
  have sole: "dir_file_count (all_files (scan_repository default_config scenario_env ''.'' init_detector))
        (dirname ''/proj/tool/self.py'') = 1"
    by code_simp
  note inst = self_reference_live [OF scenario_wf refl refl visit f kept size scannable ref self]
  from inst have "\<exists>refs. file_references (scan_repository default_config scenario_env ''.'' init_detector)
                 ''/proj/tool/self.py'' = Some refs \<and> ''/proj/tool/self.py'' \<in> refs"
    by blast
  moreover from inst scenario_classification
  have "relpath (cwd scenario_env) ''/proj/tool/self.py'' (abspath (cwd scenario_env) ''.'')
        \<notin> set [''docs/old_notes.txt'', ''docs/draft.txt''] \<union> set [''lib/legacy_helper.js'']
          \<union> set [''main.py'']"
    by simp
  ultimately show ?thesis
    using scenario_wf visit f kept size scannable ref self sole by blast
qed

text \<open>
  Claim C1 says that every resolved candidate that is a member of the tracked universe
  becomes an edge, and in particular that \<^verbatim>\<open>./helpers/parse\<close> in \<^verbatim>\<open>src/main.py\<close> yields an edge
  from \<^verbatim>\<open>src/helpers/parse.py\<close>. The scan tests the candidate against the universe as built
  so far. The walk handles the files of a directory before it enters the directories, so
  \<^verbatim>\<open>src/helpers/parse.py\<close> is not yet tracked when \<^verbatim>\<open>src/main.py\<close> is read: the reference is
  extracted and resolved, both files end up tracked, the graph has no key for
  \<^verbatim>\<open>src/helpers/parse.py\<close>, and the file is reported as orphaned. Within one directory the
  edge depends on the order of the listing: it is dropped when the referrer comes first
  and recorded when it comes last.
\<close>

theorem round_trip_edge_dropped:
  "extract_references default_config main_text = [''./helpers/parse'']
   \<and> resolve_reference example_env ''/repo'' ''./helpers/parse'' ''/repo/src/main.py''
       = [''/repo/src/helpers/parse.py'']
   \<and> all_files (scan_repository default_config example_env ''/repo'' init_detector)
       = [''/repo/src/main.py'', ''/repo/src/helpers/parse.py'']
   \<and> file_references (scan_repository default_config example_env ''/repo'' init_detector)
         ''/repo/src/helpers/parse.py'' = None
   \<and> find_dead_files default_config example_env
         (scan_repository default_config example_env ''/repo'' init_detector)
       = Inr \<lparr>unreferenced = [], orphaned = [''src/helpers/parse.py''],
              suspicious = [''src/main.py'']\<rparr>
   \<and> all_files (scan_repository default_config referrer_first_env ''/repo'' init_detector)
       = [''/repo/app.py'', ''/repo/parse.py'']
   \<and> file_references (scan_repository default_config referrer_first_env ''/repo'' init_detector)
         ''/repo/parse.py'' = None
   \<and> all_files (scan_repository default_config referrer_last_env ''/repo'' init_detector)
       = [''/repo/parse.py'', ''/repo/app.py'']
   \<and> file_references (scan_repository default_config referrer_last_env ''/repo'' init_detector)
         ''/repo/parse.py'' = Some {''/repo/app.py''}"
proof -
  have 1: "extract_references default_config main_text = [''./helpers/parse'']"
    by code_simp
  have 2: "resolve_reference example_env ''/repo'' ''./helpers/parse'' ''/repo/src/main.py''
       = [''/repo/src/helpers/parse.py'']"
    by code_simp
  have 3: "all_files (scan_repository default_config example_env ''/repo'' init_detector)
       = [''/repo/src/main.py'', ''/repo/src/helpers/parse.py'']"
    by code_simp
  have 4: "file_references (scan_repository default_config example_env ''/repo'' init_detector)
         ''/repo/src/helpers/parse.py'' = None"
    by code_simp
  have 5: "all_files (scan_repository default_config referrer_first_env ''/repo'' init_detector)
       = [''/repo/app.py'', ''/repo/parse.py'']"
    by code_simp
  have 6: "file_references (scan_repository default_config referrer_first_env ''/repo'' init_detector)
         ''/repo/parse.py'' = None"
    by code_simp
  have 7: "all_files (scan_repository default_config referrer_last_env ''/repo'' init_detector)
       = [''/repo/parse.py'', ''/repo/app.py'']"
    by code_simp
  have 8: "file_references (scan_repository default_config referrer_last_env ''/repo'' init_detector)
         ''/repo/parse.py'' = Some {''/repo/app.py''}"
    by code_simp
  from 1 2 3 4 example_classification 5 6 7 8 show ?thesis
    by blast
qed

end
